theory Spec2Isabelle
  imports Main "HOL-Library.AList"
begin

section \<open>Values, objects and the state of the server\<close>

text \<open>
  The inventory service of \<^verbatim>\<open>main.js\<close> keeps its records as JavaScript objects in the
  object \<^verbatim>\<open>inventoryDB\<close> and their photos as files in the cache directory. The handlers
  mutate the stored objects in place (\<^verbatim>\<open>item.name = name\<close>) and build the client view of
  an item on a copy (\<^verbatim>\<open>{ ...item }\<close>), so objects live in a heap and are named by
  references. A property that is not there (\<^verbatim>\<open>undefined\<close>) is a key without an entry.

  The values that reach the properties of an object are the values of JSON: a request body
  parsed by \<^verbatim>\<open>express.json()\<close> or \<^verbatim>\<open>express.urlencoded()\<close> delivers any of them. A
  number is kept as the string JavaScript prints for it, which tells one number from
  another (the two zeros apart, both printed \<^verbatim>\<open>0\<close>, and \<^verbatim>\<open>NaN\<close> is no value of JSON).
\<close>

datatype jsval =
    JNull
  | JBool bool
  | JNum string
  | JStr string
  | JArr "jsval list"
  | JObj "(string \<times> jsval) list"

type_synonym jsobj = "(string \<times> jsval) list"

type_synonym ref = nat

type_synonym bytes = string

text \<open>
  The calls a handler makes on the file system, on the error console and on the shared
  objects, in program order. Output of \<^verbatim>\<open>console.log\<close> is not tracked.
\<close>

datatype effect =
    FsUnlink jsval
  | FsWriteFile string bytes
  | ConsoleError
  | Assign ref string jsval
  | DeleteProp ref string
  | DbStore string ref
  | DbDelete string

text \<open>
  The heap holds, for every object, the enumerable properties that were assigned to it, in
  the order of assignment. Its first twelve cells are the built-in objects that
  \<^verbatim>\<open>inventoryDB = {}\<close> inherits from: cell 0 is \<^verbatim>\<open>Object.prototype\<close>, cells 1 to 11 are
  the functions it holds (\<^verbatim>\<open>Object\<close> under \<^verbatim>\<open>constructor\<close>, \<^verbatim>\<open>toString\<close>, ...). Their
  native properties are not enumerable and are not listed. Every other cell is an object
  made by a handler, whose prototype is \<^verbatim>\<open>Object.prototype\<close>.
  \<^verbatim>\<open>inventoryDB\<close> is kept apart, as its own properties in the order of \<^verbatim>\<open>Object.values\<close>.
\<close>

record server =
  heap :: "jsobj list"
  inventoryDB :: "(string \<times> ref) list"
  disk :: "string \<rightharpoonup> bytes"
  effects :: "effect list"

text \<open>
  What a request gets from outside the program: the configured cache directory, Node's
  \<^verbatim>\<open>path.join\<close>, the 128 bits of \<^verbatim>\<open>crypto.randomUUID()\<close>, the value of \<^verbatim>\<open>Date.now()\<close>, and
  whether the file system rejects the request's \<^verbatim>\<open>fs.unlink\<close> or \<^verbatim>\<open>fs.writeFile\<close>
  for a reason of its own (permissions, a full disk). A handler calls each at most once.
\<close>

record env =
  options_cache :: string
  path_join :: "string \<Rightarrow> string \<Rightarrow> string"
  randomUUID :: nat
  date_now :: nat
  unlink_rejects :: bool
  writeFile_rejects :: bool

text \<open>
  What a handler hands to \<^verbatim>\<open>res.json\<close>: an object or an array of objects.
  \<open>ErrorPage\<close> is the page Express sends, with status 500, when a handler throws.
\<close>

datatype json = JObject jsobj | JArray "jsobj list" | ErrorPage

record response =
  status :: nat
  body :: json

section \<open>JavaScript primitives\<close>

text \<open>Truthiness, as tested by \<^verbatim>\<open>if (x)\<close>, \<^verbatim>\<open>!x\<close> and \<^verbatim>\<open>x || y\<close>.\<close>

fun truthy :: "jsval option \<Rightarrow> bool" where
  "truthy None = False"
| "truthy (Some JNull) = False"
| "truthy (Some (JBool b)) = b"
| "truthy (Some (JNum n)) = (n \<noteq> ''0'')"
| "truthy (Some (JStr s)) = (s \<noteq> [])"
| "truthy (Some (JArr xs)) = True"
| "truthy (Some (JObj ps)) = True"

text \<open>
  The conversion to a string that \<^verbatim>\<open>+\<close> and template literals apply. An array joins its
  elements with commas, \<^verbatim>\<open>null\<close> elements as empty strings. An object prints as
  \<^verbatim>\<open>[object Object]\<close> through the inherited \<^verbatim>\<open>toString\<close>; if it has a property
  \<^verbatim>\<open>toString\<close> of its own, which in a value of JSON is never a function, the conversion
  throws a \<^verbatim>\<open>TypeError\<close>: that is \<open>None\<close>.
\<close>

fun to_string :: "jsval \<Rightarrow> string option"
  and join_strings :: "jsval list \<Rightarrow> string option" where
  "to_string JNull = Some ''null''"
| "to_string (JBool b) = Some (if b then ''true'' else ''false'')"
| "to_string (JNum n) = Some n"
| "to_string (JStr s) = Some s"
| "to_string (JArr xs) = join_strings xs"
| "to_string (JObj ps) =
     (if ''toString'' \<in> fst ` set ps then None else Some ''[object Object]'')"
| "join_strings [] = Some []"
| "join_strings (x # xs) =
     (case (case x of JNull \<Rightarrow> Some [] | _ \<Rightarrow> to_string x) of
        None \<Rightarrow> None
      | Some a \<Rightarrow>
          (case xs of
             [] \<Rightarrow> Some a
           | _ \<Rightarrow> (case join_strings xs of None \<Rightarrow> None | Some b \<Rightarrow> Some (a @ '','' @ b))))"

text \<open>A value inside a template literal; \<open>None\<close> when the conversion throws.\<close>

definition template :: "jsval option \<Rightarrow> string option" where
  "template v = (case v of None \<Rightarrow> Some ''undefined'' | Some x \<Rightarrow> to_string x)"

text \<open>\<^verbatim>\<open>x || ''\<close>.\<close>

definition or_empty :: "jsval option \<Rightarrow> jsval" where
  "or_empty v = (case v of Some x \<Rightarrow> if truthy v then x else JStr [] | None \<Rightarrow> JStr [])"

text \<open>A number inside a template literal: its decimal digits.\<close>

fun show_nat :: "nat \<Rightarrow> string" where
  "show_nat n =
     (if n < 10 then [''0123456789'' ! n]
      else show_nat (n div 10) @ [''0123456789'' ! (n mod 10)])"

declare show_nat.simps [simp del]

text \<open>
  The string \<^verbatim>\<open>crypto.randomUUID()\<close> returns: 32 hexadecimal digits in groups of
  8, 4, 4, 4 and 12, with dashes between them.
\<close>

fun hex_digits :: "nat \<Rightarrow> nat \<Rightarrow> string" where
  "hex_digits 0 n = []"
| "hex_digits (Suc c) n = hex_digits c (n div 16) @ [''0123456789abcdef'' ! (n mod 16)]"

definition show_uuid :: "nat \<Rightarrow> string" where
  "show_uuid n =
     (let h = hex_digits 32 n
      in take 8 h @ ''-'' @ take 4 (drop 8 h) @ ''-'' @ take 4 (drop 12 h) @ ''-''
         @ take 4 (drop 16 h) @ ''-'' @ drop 20 h)"

text \<open>
  The property names every object inherits from \<^verbatim>\<open>Object.prototype\<close>, each at the
  position of the heap cell that holds its value: \<^verbatim>\<open>__proto__\<close> reads as the prototype
  itself, the others hold functions. All of these values are truthy.
\<close>

definition object_prototype_keys :: "string list" where
  "object_prototype_keys =
     [''__proto__'', ''constructor'', ''__defineGetter__'', ''__defineSetter__'',
      ''hasOwnProperty'', ''__lookupGetter__'', ''__lookupSetter__'', ''isPrototypeOf'',
      ''propertyIsEnumerable'', ''toString'', ''valueOf'', ''toLocaleString'']"

fun index_of :: "'a list \<Rightarrow> 'a \<Rightarrow> nat option" where
  "index_of [] x = None"
| "index_of (y # ys) x = (if x = y then Some 0 else map_option Suc (index_of ys x))"

definition is_function :: "ref \<Rightarrow> bool" where
  "is_function r \<longleftrightarrow> 0 < r \<and> r < 12"

text \<open>
  What \<^verbatim>\<open>inventoryDB[id]\<close> evaluates to: an object of the heap, or a value of JSON that
  a request body brought in and a handler assigned to \<^verbatim>\<open>Object.prototype\<close>.
\<close>

datatype jsitem = Ref ref | Value jsval

text \<open>
  The own enumerable properties, as \<^verbatim>\<open>{ ...item }\<close> copies them: of a string its
  characters and of an array its elements, under their positions; of a number or a boolean
  none.
\<close>

fun spread :: "jsval \<Rightarrow> jsobj" where
  "spread (JStr cs) = zip (map show_nat [0..<length cs]) (map (\<lambda>c. JStr [c]) cs)"
| "spread (JArr xs) = zip (map show_nat [0..<length xs]) xs"
| "spread (JObj ps) = ps"
| "spread _ = []"

definition own_props :: "server \<Rightarrow> jsitem \<Rightarrow> jsobj" where
  "own_props s item = (case item of Ref r \<Rightarrow> heap s ! r | Value v \<Rightarrow> spread v)"

text \<open>
  \<^verbatim>\<open>item.k\<close> for the names the handlers read (\<^verbatim>\<open>id\<close>, \<^verbatim>\<open>description\<close>,
  \<^verbatim>\<open>photoPath\<close>, \<^verbatim>\<open>photoUrl\<close>): the own property, else what was assigned to
  \<^verbatim>\<open>Object.prototype\<close>, which is at the end of the prototype chain of every item.
  \<open>None\<close> is \<^verbatim>\<open>undefined\<close>.
\<close>

definition item_prop :: "server \<Rightarrow> jsitem \<Rightarrow> string \<Rightarrow> jsval option" where
  "item_prop s item k =
     (case map_of (own_props s item) k of
        Some v \<Rightarrow> Some v
      | None \<Rightarrow> map_of (heap s ! 0) k)"

definition get_prop :: "server \<Rightarrow> ref \<Rightarrow> string \<Rightarrow> jsval option" where
  "get_prop s r k = item_prop s (Ref r) k"

text \<open>
  \<^verbatim>\<open>const { name, description } = req.body\<close>: a property of the parsed body, which is
  an object like any other and inherits what was assigned to \<^verbatim>\<open>Object.prototype\<close>.
\<close>

definition body_prop :: "server \<Rightarrow> jsobj \<Rightarrow> string \<Rightarrow> jsval option" where
  "body_prop s b k =
     (case map_of b k of
        Some v \<Rightarrow> Some v
      | None \<Rightarrow> map_of (heap s ! 0) k)"

definition alloc :: "jsobj \<Rightarrow> server \<Rightarrow> ref \<times> server" where
  "alloc obj s = (length (heap s), s\<lparr>heap := heap s @ [obj]\<rparr>)"

text \<open>
  \<^verbatim>\<open>obj.k = v\<close> for the names the handlers assign (\<^verbatim>\<open>name\<close>, \<^verbatim>\<open>description\<close>,
  \<^verbatim>\<open>photoPath\<close>, \<^verbatim>\<open>photoUrl\<close>). The \<^verbatim>\<open>name\<close> of a function is not writable, and the
  file is not in strict mode: the assignment does nothing. Every other assignment sets
  or creates an own property.
\<close>

definition set_prop :: "ref \<Rightarrow> string \<Rightarrow> jsval \<Rightarrow> server \<Rightarrow> server" where
  "set_prop r k v s =
     (if is_function r \<and> k = ''name''
      then s\<lparr>effects := effects s @ [Assign r k v]\<rparr>
      else s\<lparr>heap := (heap s)[r := AList.update k v (heap s ! r)],
             effects := effects s @ [Assign r k v]\<rparr>)"

definition delete_prop :: "ref \<Rightarrow> string \<Rightarrow> server \<Rightarrow> server" where
  "delete_prop r k s =
     s\<lparr>heap := (heap s)[r := AList.delete k (heap s ! r)],
       effects := effects s @ [DeleteProp r k]\<rparr>"

text \<open>
  \<^verbatim>\<open>inventoryDB[id]\<close>: the own property, else the value inherited under that name, which
  is what a handler assigned to \<^verbatim>\<open>Object.prototype\<close> or else what is built in;
  \<open>None\<close> is \<^verbatim>\<open>undefined\<close>. The test \<^verbatim>\<open>!item\<close> is \<open>falsy\<close>.
\<close>

definition db_get :: "server \<Rightarrow> string \<Rightarrow> jsitem option" where
  "db_get s k =
     (case map_of (inventoryDB s) k of
        Some r \<Rightarrow> Some (Ref r)
      | None \<Rightarrow>
          (case map_of (heap s ! 0) k of
             Some v \<Rightarrow> Some (Value v)
           | None \<Rightarrow> map_option Ref (index_of object_prototype_keys k)))"

definition falsy :: "jsitem option \<Rightarrow> bool" where
  "falsy item =
     (case item of None \<Rightarrow> True | Some (Ref r) \<Rightarrow> False | Some (Value v) \<Rightarrow> \<not> truthy (Some v))"

text \<open>
  \<^verbatim>\<open>inventoryDB[id] = item\<close> keeps the position of a key that is there and appends a new
  one. Under \<^verbatim>\<open>__proto__\<close> it calls the inherited setter instead; the handlers get
  there only with the prototype that \<^verbatim>\<open>inventoryDB[id]\<close> has just read, which leaves
  \<^verbatim>\<open>inventoryDB\<close> as it is. \<^verbatim>\<open>delete inventoryDB[id]\<close> removes an own property and nothing
  else. No key is an array index, so the order of insertion is the order of
  \<^verbatim>\<open>Object.values\<close>.
\<close>

definition db_store :: "string \<Rightarrow> ref \<Rightarrow> server \<Rightarrow> server" where
  "db_store k r s =
     (if k = ''__proto__''
      then s\<lparr>effects := effects s @ [DbStore k r]\<rparr>
      else s\<lparr>inventoryDB := AList.update k r (inventoryDB s),
             effects := effects s @ [DbStore k r]\<rparr>)"

definition db_delete :: "string \<Rightarrow> server \<Rightarrow> server" where
  "db_delete k s =
     s\<lparr>inventoryDB := AList.delete k (inventoryDB s), effects := effects s @ [DbDelete k]\<rparr>"

definition console_error :: "server \<Rightarrow> server" where
  "console_error s = s\<lparr>effects := effects s @ [ConsoleError]\<rparr>"

text \<open>
  \<^verbatim>\<open>fs.unlink\<close> rejects when its argument is not a string, when the file is not there,
  or when the file system refuses; \<^verbatim>\<open>fs.writeFile\<close> rejects when the file system refuses,
  and then the file is taken not to have been created. The boolean is whether the promise
  was fulfilled.
\<close>

definition unlinks :: "env \<Rightarrow> jsval \<Rightarrow> server \<Rightarrow> string option" where
  "unlinks e v s =
     (case v of
        JStr p \<Rightarrow> if disk s p \<noteq> None \<and> \<not> unlink_rejects e then Some p else None
      | _ \<Rightarrow> None)"

definition fs_unlink :: "env \<Rightarrow> jsval \<Rightarrow> server \<Rightarrow> bool \<times> server" where
  "fs_unlink e v s =
     (let s1 = s\<lparr>effects := effects s @ [FsUnlink v]\<rparr>
      in case unlinks e v s of
           Some p \<Rightarrow> (True, s1\<lparr>disk := (disk s)(p := None)\<rparr>)
         | None \<Rightarrow> (False, s1))"

definition fs_writeFile :: "env \<Rightarrow> string \<Rightarrow> bytes \<Rightarrow> server \<Rightarrow> bool \<times> server" where
  "fs_writeFile e p d s =
     (let s1 = s\<lparr>effects := effects s @ [FsWriteFile p d]\<rparr>
      in if \<not> writeFile_rejects e
         then (True, s1\<lparr>disk := (disk s)(p \<mapsto> d)\<rparr>)
         else (False, s1))"

text \<open>\<^verbatim>\<open>fs.unlink(p).catch(err => console.error(...))\<close>: a rejection is logged and dropped.\<close>

definition unlink_logged :: "env \<Rightarrow> jsval \<Rightarrow> server \<Rightarrow> server" where
  "unlink_logged e v s =
     (let (ok, s1) = fs_unlink e v s in if ok then s1 else console_error s1)"

text \<open>\<^verbatim>\<open>if (item.photoPath) await fs.unlink(item.photoPath).catch(...)\<close>.\<close>

definition unlink_photo :: "env \<Rightarrow> jsitem \<Rightarrow> server \<Rightarrow> server" where
  "unlink_photo e item s =
     (case item_prop s item ''photoPath'' of
        Some v \<Rightarrow> if truthy (Some v) then unlink_logged e v s else s
      | None \<Rightarrow> s)"

definition res_json :: "nat \<Rightarrow> json \<Rightarrow> server \<Rightarrow> response \<times> server" where
  "res_json code b s = (\<lparr>status = code, body = b\<rparr>, s)"

definition error_body :: "string \<Rightarrow> json" where
  "error_body msg = JObject [(''error'', JStr msg)]"

definition message_body :: "string \<Rightarrow> json" where
  "message_body msg = JObject [(''message'', JStr msg)]"

section \<open>The handlers\<close>

text \<open>
  \<^verbatim>\<open>itemToClient\<close>: a fresh object with the own enumerable properties of the item, a
  \<^verbatim>\<open>photoUrl\<close> when \<^verbatim>\<open>photoPath\<close> is truthy, and \<^verbatim>\<open>photoPath\<close> deleted. It returns
  \<open>None\<close> when the template literal throws, which leaves the fresh object behind.
\<close>

definition itemToClient :: "jsitem \<Rightarrow> server \<Rightarrow> ref option \<times> server" where
  "itemToClient item s =
     (let (clientItem, s1) = alloc (own_props s item) s
      in if truthy (get_prop s1 clientItem ''photoPath'')
         then (case template (get_prop s1 clientItem ''id'') of
                 None \<Rightarrow> (None, s1)
               | Some i \<Rightarrow>
                   (Some clientItem,
                    delete_prop clientItem ''photoPath''
                      (set_prop clientItem ''photoUrl''
                         (JStr (''/inventory/'' @ i @ ''/photo'')) s1)))
         else (Some clientItem, delete_prop clientItem ''photoPath'' s1))"

text \<open>\<^verbatim>\<open>res.json(itemToClient(item))\<close>, with the status set before.\<close>

definition json_itemToClient :: "nat \<Rightarrow> jsitem \<Rightarrow> server \<Rightarrow> response \<times> server" where
  "json_itemToClient code item s =
     (case itemToClient item s of
        (None, s1) \<Rightarrow> res_json 500 ErrorPage s1
      | (Some clientItem, s1) \<Rightarrow> res_json code (JObject (heap s1 ! clientItem)) s1)"

text \<open>
  \<^verbatim>\<open>POST /register\<close>. The upload library parses the multipart form before it calls the
  handler's callback, and stores every file part in the cache directory as it arrives. A
  parsed form gives the values of the expressions \<^verbatim>\<open>inventory_name\<close>, \<^verbatim>\<open>description\<close>
  and \<^verbatim>\<open>photo\<close> of lines 157 to 159 (for \<^verbatim>\<open>photo\<close> the path and the content of the
  file), and the files of all the other parts, which the handler never looks at. A form
  that could not be parsed gives the files stored until then. What the library does with
  its files after it has reported the error is its own affair and not part of the
  handler. The handler does not wait for its \<^verbatim>\<open>fs.unlink\<close>; the model takes the outcome of
  the call at once. The \<^verbatim>\<open>id\<close> of \<^verbatim>\<open>newItem\<close> is a string, so \<^verbatim>\<open>itemToClient\<close> does
  not throw here.
\<close>

datatype form =
    ParseError "(string \<times> bytes) list"
  | Parsed "jsval option" "jsval option" "(string \<times> bytes) option" "(string \<times> bytes) list"

fun store_files :: "(string \<times> bytes) list \<Rightarrow> (string \<rightharpoonup> bytes) \<Rightarrow> (string \<rightharpoonup> bytes)" where
  "store_files [] d = d"
| "store_files ((filepath, content) # fs) d = store_files fs (d(filepath \<mapsto> content))"

definition uploads :: "form \<Rightarrow> (string \<times> bytes) list" where
  "uploads f =
     (case f of
        ParseError stored \<Rightarrow> stored
      | Parsed _ _ photo others \<Rightarrow> others @ (case photo of Some p \<Rightarrow> [p] | None \<Rightarrow> []))"

definition form_parse :: "form \<Rightarrow> server \<Rightarrow> server" where
  "form_parse f s = s\<lparr>disk := store_files (uploads f) (disk s)\<rparr>"

definition register_callback :: "env \<Rightarrow> form \<Rightarrow> server \<Rightarrow> response \<times> server" where
  "register_callback e f s =
     (case f of
        ParseError _ \<Rightarrow> res_json 500 (error_body ''Error parsing form data'') s
      | Parsed inventory_name description photo _ \<Rightarrow>
          (case (if truthy inventory_name then inventory_name else None) of
             None \<Rightarrow>
               res_json 400 (error_body ''inventory_name is required'')
                 (case photo of
                    Some (filepath, _) \<Rightarrow> unlink_logged e (JStr filepath) s
                  | None \<Rightarrow> s)
           | Some name \<Rightarrow>
               (let id' = show_uuid (randomUUID e);
                    (newItem, s1) =
                       alloc [(''id'', JStr id'),
                              (''name'', name),
                              (''description'', or_empty description),
                              (''photoPath'',
                                 (case photo of
                                    Some (filepath, _) \<Rightarrow> JStr filepath
                                  | None \<Rightarrow> JNull))] s;
                    s2 = db_store id' newItem s1
                in json_itemToClient 201 (Ref newItem) s2)))"

definition post_register :: "env \<Rightarrow> form \<Rightarrow> server \<Rightarrow> response \<times> server" where
  "post_register e f s = register_callback e f (form_parse f s)"

text \<open>
  \<^verbatim>\<open>GET /inventory\<close>: \<^verbatim>\<open>Object.values(inventoryDB).map(itemToClient)\<close>, which stops at
  the first call that throws.
\<close>

fun map_itemToClient :: "jsitem list \<Rightarrow> server \<Rightarrow> ref list option \<times> server" where
  "map_itemToClient [] s = (Some [], s)"
| "map_itemToClient (item # items) s =
     (case itemToClient item s of
        (None, s1) \<Rightarrow> (None, s1)
      | (Some c, s1) \<Rightarrow>
          (case map_itemToClient items s1 of
             (None, s2) \<Rightarrow> (None, s2)
           | (Some cs, s2) \<Rightarrow> (Some (c # cs), s2)))"

definition get_inventory :: "server \<Rightarrow> response \<times> server" where
  "get_inventory s =
     (case map_itemToClient (map (\<lambda>(k, r). Ref r) (inventoryDB s)) s of
        (None, s1) \<Rightarrow> res_json 500 ErrorPage s1
      | (Some allItems, s1) \<Rightarrow> res_json 200 (JArray (map (\<lambda>c. heap s1 ! c) allItems)) s1)"

text \<open>
  A handler is about to assign to a property of an item that is a value of JSON, or to
  store such an item in \<^verbatim>\<open>inventoryDB\<close>. The value is one object with the property of
  \<^verbatim>\<open>Object.prototype\<close> it was read from and with every copy a request body inherited
  from there; the heap does not keep them as one, and \<^verbatim>\<open>inventoryDB\<close> holds objects of
  the heap only. What the code does from there on is outside of the model.
\<close>

datatype outside = Item_is_value

text \<open>
  \<^verbatim>\<open>PUT /inventory/:id\<close>, with the own properties of the parsed body. An array as body,
  or no body at all where Express sets \<^verbatim>\<open>req.body\<close> to an empty object, reads as the
  body without properties. Both \<^verbatim>\<open>name\<close> and \<^verbatim>\<open>description\<close> are read before the first
  assignment.
\<close>

definition put_inventory :: "string \<Rightarrow> jsobj \<Rightarrow> server \<Rightarrow> outside + response \<times> server" where
  "put_inventory id' req_body s =
     (case (if falsy (db_get s id') then None else db_get s id') of
        None \<Rightarrow> Inr (res_json 404 (error_body ''Not Found'') s)
      | Some (Value v) \<Rightarrow> Inl Item_is_value
      | Some (Ref item) \<Rightarrow>
          (let name = body_prop s req_body ''name'';
               description = body_prop s req_body ''description'';
               s1 = (case name of
                       Some n \<Rightarrow> if truthy name then set_prop item ''name'' n s else s
                     | None \<Rightarrow> s);
               s2 = (case description of
                       Some d \<Rightarrow> if truthy description then set_prop item ''description'' d s1
                                 else s1
                     | None \<Rightarrow> s1);
               s3 = db_store id' item s2
           in Inr (json_itemToClient 200 (Ref item) s3)))"

text \<open>\<^verbatim>\<open>DELETE /inventory/:id\<close>.\<close>

definition delete_inventory :: "env \<Rightarrow> string \<Rightarrow> server \<Rightarrow> response \<times> server" where
  "delete_inventory e id' s =
     (case (if falsy (db_get s id') then None else db_get s id') of
        None \<Rightarrow> res_json 404 (error_body ''Not Found'') s
      | Some item \<Rightarrow>
          (let s1 = unlink_photo e item s;
               s2 = db_delete id' s1
           in res_json 200 (message_body (''Item '' @ id' @ '' deleted'')) s2))"

text \<open>
  \<^verbatim>\<open>PUT /inventory/:id/photo\<close>. The handler reads the request as a stream. When the
  content type made \<^verbatim>\<open>express.json()\<close> or \<^verbatim>\<open>express.urlencoded()\<close> read the body before
  the handler runs, the stream has ended: the listener for \<^verbatim>\<open>end\<close> is never called, and
  the request gets no answer, which is \<open>None\<close>.
\<close>

datatype request_stream = Unread bytes | Consumed

definition put_photo ::
  "env \<Rightarrow> string \<Rightarrow> request_stream \<Rightarrow> server \<Rightarrow> outside + response option \<times> server" where
  "put_photo e id' req s =
     (case (if falsy (db_get s id') then None else db_get s id') of
        None \<Rightarrow> Inr (map_prod Some id (res_json 404 (error_body ''Not Found'') s))
      | Some item \<Rightarrow>
          (case req of
             Consumed \<Rightarrow> Inr (None, s)
           | Unread newPhotoData \<Rightarrow>
               if length newPhotoData = 0
               then Inr (map_prod Some id (res_json 400 (error_body ''Empty photo data'') s))
               else
                 (let s1 = unlink_photo e item s;
                      newPhotoPath =
                        path_join e (options_cache e)
                          (''photo_'' @ id' @ ''_'' @ show_nat (date_now e) @ ''.jpg'');
                      (ok, s2) = fs_writeFile e newPhotoPath newPhotoData s1
                  in if ok then
                       (case item of
                          Ref r \<Rightarrow>
                            Inr (map_prod Some id
                                   (res_json 200 (message_body ''Photo updated'')
                                      (set_prop r ''photoPath'' (JStr newPhotoPath) s2)))
                        | Value v \<Rightarrow> Inl Item_is_value)
                     else Inr (map_prod Some id
                                 (res_json 500 (error_body ''Failed to save photo'') s2)))))"

text \<open>
  \<^verbatim>\<open>GET /search\<close> and \<^verbatim>\<open>POST /search\<close> have the same body; they read the id and the flag
  from the query (\<^verbatim>\<open>includePhoto\<close>) and from the form (\<^verbatim>\<open>has_photo\<close>). A parameter that is
  not there is \<^verbatim>\<open>undefined\<close>, which as a property key reads \<^verbatim>\<open>"undefined"\<close>. When a
  conversion to a string throws, Express answers with its error page.
\<close>

definition property_key :: "string option \<Rightarrow> string" where
  "property_key id' = (case id' of Some k \<Rightarrow> k | None \<Rightarrow> ''undefined'')"

definition search_item :: "string option \<Rightarrow> string option \<Rightarrow> server \<Rightarrow> response \<times> server" where
  "search_item id' flag s =
     (case (if falsy (db_get s (property_key id')) then None else db_get s (property_key id')) of
        None \<Rightarrow> res_json 404 (error_body ''Not Found'') s
      | Some item \<Rightarrow>
          (case itemToClient item s of
             (None, s1) \<Rightarrow> res_json 500 ErrorPage s1
           | (Some clientItem, s1) \<Rightarrow>
               if flag = Some ''on'' \<and> truthy (get_prop s1 clientItem ''photoUrl'')
               then (case (to_string (or_empty (get_prop s1 clientItem ''description'')),
                           template (get_prop s1 clientItem ''photoUrl'')) of
                       (Some d, Some u) \<Rightarrow>
                         (let s2 = set_prop clientItem ''description''
                                     (JStr (d @ '' [Photo Link: '' @ u @ '']'')) s1
                          in res_json 200 (JObject (heap s2 ! clientItem)) s2)
                     | _ \<Rightarrow> res_json 500 ErrorPage s1)
               else res_json 200 (JObject (heap s1 ! clientItem)) s1))"

definition get_search :: "string option \<Rightarrow> string option \<Rightarrow> server \<Rightarrow> response \<times> server" where
  "get_search id' includePhoto s = search_item id' includePhoto s"

definition post_search :: "string option \<Rightarrow> string option \<Rightarrow> server \<Rightarrow> response \<times> server" where
  "post_search id' has_photo s = search_item id' has_photo s"

section \<open>Sequences of requests\<close>

datatype request =
    ReqRegister env form
  | ReqList
  | ReqUpdate string jsobj
  | ReqDelete env string
  | ReqPutPhoto env string request_stream
  | ReqSearchGet "string option" "string option"
  | ReqSearchPost "string option" "string option"

fun step :: "request \<Rightarrow> server \<Rightarrow> outside + response option \<times> server" where
  "step (ReqRegister e f) s = Inr (map_prod Some id (post_register e f s))"
| "step ReqList s = Inr (map_prod Some id (get_inventory s))"
| "step (ReqUpdate id' req_body) s = map_sum id (map_prod Some id) (put_inventory id' req_body s)"
| "step (ReqDelete e id') s = Inr (map_prod Some id (delete_inventory e id' s))"
| "step (ReqPutPhoto e id' req) s = put_photo e id' req s"
| "step (ReqSearchGet id' flag) s = Inr (map_prod Some id (get_search id' flag s))"
| "step (ReqSearchPost id' flag) s = Inr (map_prod Some id (post_search id' flag s))"

fun run :: "request list \<Rightarrow> server \<Rightarrow> outside + server" where
  "run [] s = Inr s"
| "run (q # qs) s =
     (case step q s of
        Inl x \<Rightarrow> Inl x
      | Inr (res, s1) \<Rightarrow> run qs s1)"

text \<open>
  The server after start-up: the built-in objects with nothing assigned to them, no record,
  and whatever files the cache directory holds.
\<close>

definition init :: "(string \<rightharpoonup> bytes) \<Rightarrow> server" where
  "init d = \<lparr>heap = replicate 12 [], inventoryDB = [], disk = d, effects = []\<rparr>"

section \<open>Records, views and reachable states\<close>

text \<open>
  The value \<^verbatim>\<open>itemToClient\<close> returns, as a function of what was assigned to
  \<^verbatim>\<open>Object.prototype\<close> and of the own properties of its argument.
\<close>

definition inherited :: "jsobj \<Rightarrow> jsobj \<Rightarrow> string \<Rightarrow> jsval option" where
  "inherited proto obj k = (case map_of obj k of Some v \<Rightarrow> Some v | None \<Rightarrow> map_of proto k)"

definition view_throws :: "jsobj \<Rightarrow> jsobj \<Rightarrow> bool" where
  "view_throws proto obj \<longleftrightarrow>
     truthy (inherited proto obj ''photoPath'') \<and> template (inherited proto obj ''id'') = None"

definition view_of :: "jsobj \<Rightarrow> jsobj \<Rightarrow> jsobj" where
  "view_of proto obj =
     AList.delete ''photoPath''
       (if truthy (inherited proto obj ''photoPath'')
        then AList.update ''photoUrl''
               (JStr (''/inventory/''
                      @ (case template (inherited proto obj ''id'') of Some i \<Rightarrow> i | None \<Rightarrow> [])
                      @ ''/photo'')) obj
        else obj)"

text \<open>
  The shape of the object that \<^verbatim>\<open>POST /register\<close> stores under the key \<open>k\<close>: the four
  properties of \<^verbatim>\<open>newItem\<close>, with the key as \<^verbatim>\<open>id\<close>.
\<close>

definition is_record :: "string \<Rightarrow> jsobj \<Rightarrow> bool" where
  "is_record k obj \<longleftrightarrow>
     map fst obj = [''id'', ''name'', ''description'', ''photoPath''] \<and>
     map_of obj ''id'' = Some (JStr k)"

text \<open>
  A well-formed state: the built-in objects are there, \<^verbatim>\<open>Object.prototype\<close> has been
  assigned no other property than the three a handler can assign, and the keys of
  \<^verbatim>\<open>inventoryDB\<close> name pairwise different objects made by the handlers, each a record of
  its key.
\<close>

definition wf_server :: "server \<Rightarrow> bool" where
  "wf_server s \<longleftrightarrow>
     12 \<le> length (heap s) \<and>
     fst ` set (heap s ! 0) \<subseteq> {''name'', ''description'', ''photoPath''} \<and>
     distinct (map fst (inventoryDB s)) \<and>
     distinct (map snd (inventoryDB s)) \<and>
     (\<forall>(k, r) \<in> set (inventoryDB s).
        12 \<le> r \<and> r < length (heap s) \<and> is_record k (heap s ! r))"

text \<open>The own properties of an object after \<^verbatim>\<open>if (v) obj.f = v\<close>.\<close>

definition assigned :: "string \<Rightarrow> jsval option \<Rightarrow> jsobj \<Rightarrow> jsobj" where
  "assigned f v obj =
     (case v of Some x \<Rightarrow> if truthy v then AList.update f x obj else obj | None \<Rightarrow> obj)"


text \<open>The photo reference of the object at \<open>r\<close>: the string in its \<^verbatim>\<open>photoPath\<close>, if any.\<close>

definition photo_ref :: "server \<Rightarrow> ref \<Rightarrow> string option" where
  "photo_ref s r =
     (case map_of (heap s ! r) ''photoPath'' of Some (JStr p) \<Rightarrow> Some p | _ \<Rightarrow> None)"

text \<open>No live record refers to a file that is not on disk.\<close>

definition no_dangling :: "server \<Rightarrow> bool" where
  "no_dangling s \<longleftrightarrow>
     (\<forall>(k, r) \<in> set (inventoryDB s).
        case photo_ref s r of Some p \<Rightarrow> disk s p \<noteq> None | None \<Rightarrow> True)"

text \<open>No two live records refer to the same file.\<close>

definition exclusive :: "server \<Rightarrow> bool" where
  "exclusive s \<longleftrightarrow>
     (\<forall>(k, r) \<in> set (inventoryDB s). \<forall>(k', r') \<in> set (inventoryDB s).
        k \<noteq> k' \<longrightarrow> photo_ref s r = None \<or> photo_ref s r \<noteq> photo_ref s r')"

text \<open>Some live record other than the one under \<open>k\<close> refers to the file \<open>p\<close>.\<close>

definition referenced_by_other :: "server \<Rightarrow> string \<Rightarrow> string \<Rightarrow> bool" where
  "referenced_by_other s k p \<longleftrightarrow>
     (\<exists>(k', r') \<in> set (inventoryDB s). k' \<noteq> k \<and> photo_ref s r' = Some p)"

definition referenced :: "server \<Rightarrow> string \<Rightarrow> bool" where
  "referenced s p \<longleftrightarrow> (\<exists>(k, r) \<in> set (inventoryDB s). photo_ref s r = Some p)"

text \<open>The state is well-formed, and every photo reference is to a file of its own that exists.\<close>

definition consistent :: "server \<Rightarrow> bool" where
  "consistent s \<longleftrightarrow> wf_server s \<and> exclusive s \<and> no_dangling s"

text \<open>
  What the naming of files promises: the upload library stores the photo of a registration
  under a name no live record refers to, and the name \<^verbatim>\<open>PUT /inventory/:id/photo\<close> builds
  from the id and the clock is not the photo of another record.
\<close>

fun fresh_paths :: "request \<Rightarrow> server \<Rightarrow> bool" where
  "fresh_paths (ReqRegister e (Parsed _ _ (Some (filepath, _)) _)) s = (\<not> referenced s filepath)"
| "fresh_paths (ReqPutPhoto e id' req) s =
     (\<not> referenced_by_other s id'
          (path_join e (options_cache e)
             (''photo_'' @ id' @ ''_'' @ show_nat (date_now e) @ ''.jpg'')))"
| "fresh_paths _ s = True"

text \<open>
  The property names \<^verbatim>\<open>inventoryDB\<close> inherits, and a request that does not update,
  delete or replace the photo under one of them.
\<close>

definition inherited_names :: "server \<Rightarrow> string list" where
  "inherited_names s = object_prototype_keys @ map fst (heap s ! 0)"

fun plain_request :: "request \<Rightarrow> server \<Rightarrow> bool" where
  "plain_request (ReqUpdate id' req_body) s = (id' \<notin> set (inherited_names s))"
| "plain_request (ReqDelete e id') s = (id' \<notin> set (inherited_names s))"
| "plain_request (ReqPutPhoto e id' req) s = (id' \<notin> set (inherited_names s))"
| "plain_request _ s = True"

text \<open>
  A photo replace that unlinks the photo of a live record and then has its write rejected.
\<close>

fun replace_fails :: "request \<Rightarrow> server \<Rightarrow> bool" where
  "replace_fails (ReqPutPhoto e id' (Unread newPhotoData)) s =
     (newPhotoData \<noteq> [] \<and> writeFile_rejects e \<and> \<not> unlink_rejects e \<and>
      (case map_of (inventoryDB s) id' of
         Some r \<Rightarrow>
           (case photo_ref s r of Some p \<Rightarrow> p \<noteq> [] \<and> disk s p \<noteq> None | None \<Rightarrow> False)
       | None \<Rightarrow> False))"
| "replace_fails _ s = False"

text \<open>A condition on each request of a run, in the state in which the request arrives.\<close>

fun along :: "(request \<Rightarrow> server \<Rightarrow> bool) \<Rightarrow> request list \<Rightarrow> server \<Rightarrow> bool" where
  "along P [] s = True"
| "along P (q # qs) s =
     (P q s \<and> (case step q s of Inl x \<Rightarrow> True | Inr (res, s1) \<Rightarrow> along P qs s1))"

text \<open>The ids in the answer of \<^verbatim>\<open>GET /inventory\<close>.\<close>

definition body_id :: "json \<Rightarrow> jsval option list" where
  "body_id b =
     (case b of
        JObject v \<Rightarrow> [map_of v ''id'']
      | JArray vs \<Rightarrow> map (\<lambda>v. map_of v ''id'') vs
      | ErrorPage \<Rightarrow> [])"

definition listed_ids :: "server \<Rightarrow> jsval option list" where
  "listed_ids s = body_id (body (fst (get_inventory s)))"

text \<open>The ids in the answers \<^verbatim>\<open>201\<close> of a run: those that a registration returned.\<close>

definition created_id :: "response option \<Rightarrow> jsval option list" where
  "created_id res =
     (case res of
        Some r \<Rightarrow> if status r = 201 then body_id (body r) else []
      | None \<Rightarrow> [])"

fun created_ids :: "request list \<Rightarrow> server \<Rightarrow> jsval option list" where
  "created_ids [] s = []"
| "created_ids (q # qs) s =
     (case step q s of
        Inl x \<Rightarrow> []
      | Inr (res, s1) \<Rightarrow> created_id res @ created_ids qs s1)"


text \<open>No object of the body has a property \<^verbatim>\<open>photoPath\<close>.\<close>

definition hides_path :: "json \<Rightarrow> bool" where
  "hides_path b =
     (case b of
        JObject v \<Rightarrow> ''photoPath'' \<notin> fst ` set v
      | JArray vs \<Rightarrow> \<forall>v \<in> set vs. ''photoPath'' \<notin> fst ` set v
      | ErrorPage \<Rightarrow> True)"

text \<open>The object \<^verbatim>\<open>itemToClient\<close> returns, read from the heap it leaves.\<close>

definition client_view :: "server \<Rightarrow> jsitem \<Rightarrow> jsobj option" where
  "client_view s item =
     (case itemToClient item s of
        (None, s1) \<Rightarrow> None
      | (Some clientItem, s1) \<Rightarrow> Some (heap s1 ! clientItem))"


section \<open>Example states\<close>

text \<open>
  An environment in which the file system accepts every call, and the server after one
  registration with a photo in the empty cache directory.
\<close>

definition example_env :: env where
  "example_env =
     \<lparr>options_cache = ''cache'', path_join = (\<lambda>dir name. dir @ ''/'' @ name),
      randomUUID = 16170, date_now = 5, unlink_rejects = False, writeFile_rejects = False\<rparr>"

definition example_id :: string where
  "example_id = ''00000000-0000-0000-0000-000000003f2a''"

definition example_photo :: string where
  "example_photo = ''cache/photo_00000000-0000-0000-0000-000000003f2a_5.jpg''"

definition example_form :: form where
  "example_form =
     Parsed (Some (JStr ''Widget'')) (Some (JStr ''blue'')) (Some (''cache/up1.jpg'', ''JPG1'')) []"

definition example_server :: server where
  "example_server = snd (post_register example_env example_form (init Map.empty))"

text \<open>
  Runs from start-up: a registration, then a photo replaced, with and without the write
  accepted.
\<close>

definition example_replace :: "request list" where
  "example_replace =
     [ReqRegister example_env example_form,
      ReqPutPhoto example_env example_id (Unread ''JPG2'')]"

definition example_failed_replace :: "request list" where
  "example_failed_replace =
     [ReqRegister example_env example_form,
      ReqPutPhoto (example_env\<lparr>writeFile_rejects := True\<rparr>) example_id (Unread ''JPG2'')]"

section \<open>The client view and the listing\<close>

lemma index_of_None: "index_of xs x = None \<longleftrightarrow> x \<notin> set xs"
  by (induction xs) auto

lemma index_of_less: "index_of xs x = Some i \<Longrightarrow> i < length xs"
  by (induction xs arbitrary: i) (auto split: if_splits)

lemma length_hex_digits: "length (hex_digits c n) = c"
  by (induction c arbitrary: n) auto

lemma length_show_uuid: "length (show_uuid n) = 36"
  by (simp add: show_uuid_def Let_def length_hex_digits)

lemma show_uuid_plain: "show_uuid n \<notin> set object_prototype_keys"
proof
  assume "show_uuid n \<in> set object_prototype_keys"
  then have "length (show_uuid n) \<le> 20"
    by (auto simp: object_prototype_keys_def)
  then show False by (simp add: length_show_uuid)
qed

lemma show_uuid_not_proto: "show_uuid n \<noteq> ''__proto__''"
  using show_uuid_plain[of n] by (auto simp: object_prototype_keys_def)

lemma inherited_names_simps:
  "k \<notin> set (inherited_names s) \<longleftrightarrow>
     k \<notin> set object_prototype_keys \<and> map_of (heap s ! 0) k = None"
  by (auto simp: inherited_names_def map_of_eq_None_iff)

lemma db_get_plain:
  "k \<notin> set (inherited_names s) \<Longrightarrow> db_get s k = map_option Ref (map_of (inventoryDB s) k)"
  by (simp add: inherited_names_simps db_get_def index_of_None[THEN iffD2] split: option.splits)

lemma db_get_own: "map_of (inventoryDB s) k = Some r \<Longrightarrow> db_get s k = Some (Ref r)"
  by (simp add: db_get_def)

lemma falsy_simps [simp]:
  "falsy None" "\<not> falsy (Some (Ref r))" "falsy (Some (Value v)) \<longleftrightarrow> \<not> truthy (Some v)"
  by (simp_all add: falsy_def)

lemma itemToClient_db: "inventoryDB (snd (itemToClient item s)) = inventoryDB s"
  by (simp add: itemToClient_def alloc_def Let_def set_prop_def delete_prop_def case_prod_beta
      split: option.splits)

lemma itemToClient_disk: "disk (snd (itemToClient item s)) = disk s"
  by (simp add: itemToClient_def alloc_def Let_def set_prop_def delete_prop_def case_prod_beta
      split: option.splits)

lemma itemToClient_length: "length (heap (snd (itemToClient item s))) = Suc (length (heap s))"
  by (simp add: itemToClient_def alloc_def Let_def set_prop_def delete_prop_def case_prod_beta
      split: option.splits)

lemma itemToClient_prefix: "take (length (heap s)) (heap (snd (itemToClient item s))) = heap s"
  by (simp add: itemToClient_def alloc_def Let_def set_prop_def delete_prop_def case_prod_beta
      split: option.splits)

lemma get_prop_alloc:
  "0 < length (heap s) \<Longrightarrow>
     get_prop (s\<lparr>heap := heap s @ [obj]\<rparr>) (length (heap s)) k = inherited (heap s ! 0) obj k"
  by (simp add: get_prop_def item_prop_def own_props_def inherited_def nth_append
      split: option.splits)

lemma itemToClient_throws:
  "0 < length (heap s) \<Longrightarrow> view_throws (heap s ! 0) (own_props s item) \<Longrightarrow>
     fst (itemToClient item s) = None"
  by (simp add: itemToClient_def alloc_def get_prop_alloc view_throws_def)

lemma itemToClient_fst:
  "0 < length (heap s) \<Longrightarrow> \<not> view_throws (heap s ! 0) (own_props s item) \<Longrightarrow>
     fst (itemToClient item s) = Some (length (heap s))"
  by (auto simp: itemToClient_def alloc_def get_prop_alloc view_throws_def split: option.splits)

lemma itemToClient_heap:
  "0 < length (heap s) \<Longrightarrow> \<not> view_throws (heap s ! 0) (own_props s item) \<Longrightarrow>
     heap (snd (itemToClient item s)) = heap s @ [view_of (heap s ! 0) (own_props s item)]"
  by (auto simp: itemToClient_def alloc_def get_prop_alloc view_throws_def
      set_prop_def delete_prop_def view_of_def split: option.splits)

lemma itemToClient_returns:
  assumes "0 < length (heap s)" "\<not> view_throws (heap s ! 0) (own_props s item)"
  obtains s1 where "itemToClient item s = (Some (length (heap s)), s1)"
    "heap s1 = heap s @ [view_of (heap s ! 0) (own_props s item)]"
    "inventoryDB s1 = inventoryDB s" "disk s1 = disk s"
  using itemToClient_fst[OF assms] itemToClient_heap[OF assms] itemToClient_db[of item s]
    itemToClient_disk[of item s]
  by (cases "itemToClient item s") auto

lemma view_of_other:
  "k \<noteq> ''photoPath'' \<Longrightarrow> k \<noteq> ''photoUrl'' \<Longrightarrow> map_of (view_of proto obj) k = map_of obj k"
  by (simp add: view_of_def AList.delete_conv AList.update_conv)

lemma view_of_photoPath: "map_of (view_of proto obj) ''photoPath'' = None"
  by (simp add: view_of_def AList.delete_conv)

lemma view_of_photoUrl:
  "map_of (view_of proto obj) ''photoUrl'' =
     (if truthy (inherited proto obj ''photoPath'')
      then Some (JStr (''/inventory/''
                       @ (case template (inherited proto obj ''id'') of Some i \<Rightarrow> i | None \<Rightarrow> [])
                       @ ''/photo''))
      else map_of obj ''photoUrl'')"
  by (simp add: view_of_def AList.delete_conv AList.update_conv)

lemma view_of_keys: "''photoPath'' \<notin> fst ` set (view_of proto obj)"
  by (simp add: view_of_def AList.delete_keys flip: set_map)

lemma inherited_own: "map_of obj k = Some v \<Longrightarrow> inherited proto obj k = Some v"
  by (simp add: inherited_def)

lemma is_record_keys:
  "is_record k obj \<Longrightarrow> map fst obj = [''id'', ''name'', ''description'', ''photoPath'']"
  by (simp add: is_record_def)

lemma is_record_no_photoUrl: "is_record k obj \<Longrightarrow> map_of obj ''photoUrl'' = None"
proof -
  assume "is_record k obj"
  then have "''photoUrl'' \<notin> set (map fst obj)" by (simp add: is_record_def)
  then show ?thesis by (simp add: map_of_eq_None_iff)
qed

lemma is_record_photoPath: "is_record k obj \<Longrightarrow> \<exists>v. map_of obj ''photoPath'' = Some v"
proof -
  assume "is_record k obj"
  then have "''photoPath'' \<in> set (map fst obj)" by (simp add: is_record_def)
  then have "map_of obj ''photoPath'' \<noteq> None" by (simp add: map_of_eq_None_iff)
  then show ?thesis by auto
qed

lemma record_inherited:
  assumes "is_record k obj"
  shows "inherited proto obj ''id'' = Some (JStr k)"
    and "inherited proto obj ''photoPath'' = map_of obj ''photoPath''"
  using assms is_record_photoPath[OF assms] by (auto simp: inherited_def is_record_def)

lemma record_item_prop:
  assumes "is_record k (heap s ! r)"
  shows "item_prop s (Ref r) ''photoPath'' = map_of (heap s ! r) ''photoPath''"
  using is_record_photoPath[OF assms] by (auto simp: item_prop_def own_props_def)

lemma record_returns: "is_record k obj \<Longrightarrow> \<not> view_throws proto obj"
  using record_inherited(1)[of k obj proto] by (simp add: view_throws_def template_def)

lemma record_view:
  assumes "is_record k obj"
  shows "map_of (view_of proto obj) ''id'' = Some (JStr k)"
    and "map_of (view_of proto obj) ''photoUrl'' =
           (if truthy (map_of obj ''photoPath'')
            then Some (JStr (''/inventory/'' @ k @ ''/photo'')) else None)"
  using assms record_inherited[OF assms, of proto]
  by (simp_all add: view_of_other view_of_photoUrl is_record_def is_record_no_photoUrl
      template_def)

lemma nth_append_upt: "map ((!) (xs @ ys)) [length xs ..< length xs + length ys] = ys"
  by (rule nth_equalityI) (simp_all add: nth_append)

lemma map_itemToClient_frame:
  "0 < length (heap s) \<Longrightarrow>
   \<forall>x \<in> set items. x < length (heap s) \<and> \<not> view_throws (heap s ! 0) (heap s ! x) \<Longrightarrow>
   map_itemToClient (map Ref items) s = (cs, s') \<Longrightarrow>
     inventoryDB s' = inventoryDB s \<and> disk s' = disk s \<and>
     heap s' = heap s @ map (\<lambda>x. view_of (heap s ! 0) (heap s ! x)) items \<and>
     cs = Some [length (heap s) ..< length (heap s) + length items]"
proof (induction items arbitrary: s cs s')
  case Nil
  then show ?case by simp
next
  case (Cons item items)
  have nt: "\<not> view_throws (heap s ! 0) (own_props s (Ref item))"
    using Cons.prems(2) by (simp add: own_props_def)
  from itemToClient_returns[OF Cons.prems(1) nt]
  obtain s1 where a: "itemToClient (Ref item) s = (Some (length (heap s)), s1)"
    and c: "heap s1 = heap s @ [view_of (heap s ! 0) (heap s ! item)]"
      "inventoryDB s1 = inventoryDB s" "disk s1 = disk s"
    by (auto simp: own_props_def)
  obtain cs2 s2 where b: "map_itemToClient (map Ref items) s1 = (cs2, s2)"
    by (cases "map_itemToClient (map Ref items) s1")
  have p: "0 < length (heap s1)" using c(1) by simp
  have v: "\<forall>x \<in> set items. x < length (heap s1) \<and> \<not> view_throws (heap s1 ! 0) (heap s1 ! x)"
    using Cons.prems(1,2) c(1) by (auto simp: nth_append)
  have o: "map (\<lambda>x. view_of (heap s1 ! 0) (heap s1 ! x)) items
      = map (\<lambda>x. view_of (heap s ! 0) (heap s ! x)) items"
    using Cons.prems(1,2) c(1) by (simp add: nth_append)
  from Cons.IH[OF p v b] have ih: "inventoryDB s2 = inventoryDB s1" "disk s2 = disk s1"
    "heap s2 = heap s1 @ map (\<lambda>x. view_of (heap s1 ! 0) (heap s1 ! x)) items"
    "cs2 = Some [length (heap s1) ..< length (heap s1) + length items]" by simp_all
  from Cons.prems(3) a b ih(4)
  have eq: "cs = Some (length (heap s) # [length (heap s1) ..< length (heap s1) + length items])"
    "s' = s2" by simp_all
  have u: "[length (heap s) ..< length (heap s) + length (item # items)] =
      length (heap s) # [length (heap s1) ..< length (heap s1) + length items]"
    using c(1) by (simp add: upt_conv_Cons del: upt_Suc)
  show ?case unfolding u using eq c ih o by simp
qed

lemma get_inventory_views:
  assumes "0 < length (heap s)"
    "\<forall>(k, r) \<in> set (inventoryDB s). r < length (heap s) \<and> \<not> view_throws (heap s ! 0) (heap s ! r)"
  shows "body (fst (get_inventory s)) =
           JArray (map (\<lambda>(k, r). view_of (heap s ! 0) (heap s ! r)) (inventoryDB s))"
    and "inventoryDB (snd (get_inventory s)) = inventoryDB s"
    and "disk (snd (get_inventory s)) = disk s"
    and "heap (snd (get_inventory s)) =
           heap s @ map (\<lambda>(k, r). view_of (heap s ! 0) (heap s ! r)) (inventoryDB s)"
    and "status (fst (get_inventory s)) = 200"
proof -
  let ?items = "map snd (inventoryDB s)"
  have it: "map (\<lambda>(k, r). Ref r) (inventoryDB s) = map Ref ?items"
    by (simp add: split_def comp_def)
  obtain cs s' where m: "map_itemToClient (map Ref ?items) s = (cs, s')"
    by (cases "map_itemToClient (map Ref ?items) s")
  have v: "\<forall>x \<in> set ?items. x < length (heap s) \<and> \<not> view_throws (heap s ! 0) (heap s ! x)"
    using assms(2) by auto
  have vs: "map (\<lambda>x. view_of (heap s ! 0) (heap s ! x)) ?items
      = map (\<lambda>(k, r). view_of (heap s ! 0) (heap s ! r)) (inventoryDB s)"
    by (simp add: split_def comp_def)
  from map_itemToClient_frame[OF assms(1) v m] vs
  have f: "inventoryDB s' = inventoryDB s" "disk s' = disk s"
    "heap s' = heap s @ map (\<lambda>(k, r). view_of (heap s ! 0) (heap s ! r)) (inventoryDB s)"
    "cs = Some [length (heap s) ..< length (heap s) + length (inventoryDB s)]" by simp_all
  have g: "get_inventory s =
      (\<lparr>status = 200,
        body = JArray (map (\<lambda>c. heap s' ! c)
                 [length (heap s) ..< length (heap s) + length (inventoryDB s)])\<rparr>, s')"
    using m f(4) unfolding get_inventory_def it by (simp add: res_json_def)
  have "map (\<lambda>c. heap s' ! c) [length (heap s) ..< length (heap s) + length (inventoryDB s)]
      = map (\<lambda>(k, r). view_of (heap s ! 0) (heap s ! r)) (inventoryDB s)"
    using f(3)
      nth_append_upt[of "heap s" "map (\<lambda>(k, r). view_of (heap s ! 0) (heap s ! r)) (inventoryDB s)"]
    by simp
  then show "body (fst (get_inventory s)) =
      JArray (map (\<lambda>(k, r). view_of (heap s ! 0) (heap s ! r)) (inventoryDB s))"
    using g by simp
  show "inventoryDB (snd (get_inventory s)) = inventoryDB s" using g f by simp
  show "disk (snd (get_inventory s)) = disk s" using g f by simp
  show "heap (snd (get_inventory s)) =
      heap s @ map (\<lambda>(k, r). view_of (heap s ! 0) (heap s ! r)) (inventoryDB s)"
    using g f by simp
  show "status (fst (get_inventory s)) = 200" using g by simp
qed

lemma wf_refs:
  "wf_server s \<Longrightarrow>
     \<forall>(k, r) \<in> set (inventoryDB s). r < length (heap s) \<and> \<not> view_throws (heap s ! 0) (heap s ! r)"
  by (auto simp: wf_server_def record_returns)

lemma wf_nonempty: "wf_server s \<Longrightarrow> 0 < length (heap s)"
  by (auto simp: wf_server_def)

lemma listed_ids_wf:
  assumes "wf_server s"
  shows "listed_ids s = map (\<lambda>(k, r). Some (JStr k)) (inventoryDB s)"
proof -
  have "map_of (view_of (heap s ! 0) (heap s ! r)) ''id'' = Some (JStr k)"
    if "(k, r) \<in> set (inventoryDB s)" for k r
    using assms that record_view(1) unfolding wf_server_def by blast
  then have "map (\<lambda>(k, r). map_of (view_of (heap s ! 0) (heap s ! r)) ''id'') (inventoryDB s)
      = map (\<lambda>(k, r). Some (JStr k)) (inventoryDB s)"
    by auto
  then show ?thesis
    by (simp add: listed_ids_def body_id_def
        get_inventory_views(1)[OF wf_nonempty[OF assms] wf_refs[OF assms]] comp_def split_def)
qed

section \<open>Well-formed states are kept\<close>

lemma wf_frame:
  assumes "wf_server s" "inventoryDB s' = inventoryDB s" "length (heap s) \<le> length (heap s')"
    "\<And>r. r < length (heap s) \<Longrightarrow> heap s' ! r = heap s ! r"
  shows "wf_server s'"
proof -
  have "0 < length (heap s)" using assms(1) by (auto simp: wf_server_def)
  then have "heap s' ! 0 = heap s ! 0" by (rule assms(4))
  then show ?thesis using assms unfolding wf_server_def by fastforce
qed

lemma wf_prefix:
  assumes "wf_server s" "inventoryDB s' = inventoryDB s"
    "take (length (heap s)) (heap s') = heap s"
  shows "wf_server s'"
proof (rule wf_frame[OF assms(1,2)])
  have "length (take (length (heap s)) (heap s')) = length (heap s)"
    using assms(3) by simp
  then show "length (heap s) \<le> length (heap s')" by simp
  fix r assume "r < length (heap s)"
  then show "heap s' ! r = heap s ! r" using assms(3) by (metis nth_take)
qed

lemma wf_itemToClient: "wf_server s \<Longrightarrow> wf_server (snd (itemToClient item s))"
  by (rule wf_prefix[where s = s]) (simp_all add: itemToClient_db itemToClient_prefix)

lemma unlink_logged_fields:
  "heap (unlink_logged e v s) = heap s"
  "inventoryDB (unlink_logged e v s) = inventoryDB s"
  "disk (unlink_logged e v s) =
     (case unlinks e v s of Some p \<Rightarrow> (disk s)(p := None) | None \<Rightarrow> disk s)"
  "effects (unlink_logged e v s) =
     effects s @ FsUnlink v # (case unlinks e v s of Some p \<Rightarrow> [] | None \<Rightarrow> [ConsoleError])"
  by (simp_all add: unlink_logged_def fs_unlink_def console_error_def Let_def
      split: option.splits)

lemma unlinks_JStr:
  "unlinks e (JStr p) s = (if disk s p \<noteq> None \<and> \<not> unlink_rejects e then Some p else None)"
  by (simp add: unlinks_def)

lemma unlink_photo_fields:
  "heap (unlink_photo e item s) = heap s"
  "inventoryDB (unlink_photo e item s) = inventoryDB s"
  by (simp_all add: unlink_photo_def unlink_logged_fields split: option.splits)

lemma wf_unlink_photo: "wf_server s \<Longrightarrow> wf_server (unlink_photo e item s)"
  by (simp add: wf_server_def unlink_photo_fields)

lemma wf_unlink_logged: "wf_server s \<Longrightarrow> wf_server (unlink_logged e p s)"
  by (simp add: wf_server_def unlink_logged_fields)

lemma wf_form_parse: "wf_server s \<Longrightarrow> wf_server (form_parse f s)"
  by (simp add: wf_server_def form_parse_def)

lemma is_record_update:
  assumes "is_record k obj" "f \<in> {''name'', ''description'', ''photoPath''}"
  shows "is_record k (AList.update f v obj)"
proof -
  have keys: "map fst obj = [''id'', ''name'', ''description'', ''photoPath'']"
    using assms(1) by (simp add: is_record_def)
  have "f \<in> set (map fst obj)" unfolding keys using assms(2) by simp
  then have k: "map fst (AList.update f v obj) = map fst obj"
    by (simp add: AList.update_keys)
  from assms(2) consider "f = ''name''" | "f = ''description''" | "f = ''photoPath''" by blast
  then show ?thesis
  proof cases
    case 1
    with assms(1) k show ?thesis by (simp add: is_record_def AList.update_conv')
  next
    case 2
    with assms(1) k show ?thesis by (simp add: is_record_def AList.update_conv')
  next
    case 3
    with assms(1) k show ?thesis by (simp add: is_record_def AList.update_conv')
  qed
qed

lemma wf_entry:
  "wf_server s \<Longrightarrow> (k, r) \<in> set (inventoryDB s) \<Longrightarrow>
     12 \<le> r \<and> r < length (heap s) \<and> is_record k (heap s ! r)"
  by (auto simp: wf_server_def)

lemma wf_lookup:
  "wf_server s \<Longrightarrow> map_of (inventoryDB s) k = Some r \<Longrightarrow>
     12 \<le> r \<and> r < length (heap s) \<and> is_record k (heap s ! r) \<and> \<not> is_function r"
  using wf_entry[of s k r] by (auto simp: is_function_def dest: map_of_SomeD)

lemma wf_same_key:
  assumes "wf_server s" "(k, r) \<in> set (inventoryDB s)" "(k', r') \<in> set (inventoryDB s)"
  shows "k' = k \<longleftrightarrow> r' = r"
proof
  assume "k' = k"
  have "inj_on fst (set (inventoryDB s))" using assms(1) by (simp add: wf_server_def distinct_map)
  from inj_onD[OF this, of "(k', r')" "(k, r)"] assms(2,3) \<open>k' = k\<close> show "r' = r" by simp
next
  assume "r' = r"
  have "inj_on snd (set (inventoryDB s))" using assms(1) by (simp add: wf_server_def distinct_map)
  from inj_onD[OF this, of "(k', r')" "(k, r)"] assms(2,3) \<open>r' = r\<close> show "k' = k" by simp
qed

lemma wf_update_cell:
  assumes "wf_server s" "(k, r) \<in> set (inventoryDB s)" "is_record k obj"
    "inventoryDB s' = inventoryDB s" "heap s' = (heap s)[r := obj]"
  shows "wf_server s'"
proof -
  have r: "12 \<le> r" "r < length (heap s)" using wf_entry[OF assms(1,2)] by simp_all
  have "12 \<le> r' \<and> r' < length (heap s') \<and> is_record k' (heap s' ! r')"
    if "(k', r') \<in> set (inventoryDB s)" for k' r'
  proof (cases "r' = r")
    case True
    with wf_same_key[OF assms(1,2) that] have "k' = k" by simp
    with True assms(3,5) r show ?thesis by simp
  next
    case False
    with wf_entry[OF assms(1) that] assms(5) show ?thesis by simp
  qed
  moreover have "heap s' ! 0 = heap s ! 0" using assms(5) r by simp
  ultimately show ?thesis using assms(1,4,5) by (auto simp: wf_server_def)
qed

lemma wf_set_prop:
  assumes "wf_server s" "(k, r) \<in> set (inventoryDB s)"
    "f \<in> {''name'', ''description'', ''photoPath''}"
  shows "wf_server (set_prop r f v s)"
proof -
  have r: "\<not> is_function r" "is_record k (heap s ! r)"
    using wf_entry[OF assms(1,2)] by (simp_all add: is_function_def)
  show ?thesis
    by (rule wf_update_cell[OF assms(1,2) is_record_update[OF r(2) assms(3), of v]])
       (simp_all add: set_prop_def r(1))
qed

lemma wf_db_delete: "wf_server s \<Longrightarrow> wf_server (db_delete k s)"
  by (auto simp: wf_server_def db_delete_def AList.distinct_delete AList.delete_eq distinct_map_filter)

lemma wf_db_store_same:
  "wf_server s \<Longrightarrow> map_of (inventoryDB s) k = Some r \<Longrightarrow> wf_server (db_store k r s)"
  by (simp add: wf_server_def db_store_def AList.update_triv)

lemma set_update_subset: "set (AList.update k v al) \<subseteq> insert (k, v) (set al)"
  by (induction al) auto

lemma distinct_snd_update:
  "distinct (map snd al) \<Longrightarrow> v \<notin> snd ` set al \<Longrightarrow> distinct (map snd (AList.update k v al))"
proof (induction al)
  case Nil
  then show ?case by simp
next
  case (Cons a al)
  have "snd ` set (AList.update k v al) \<subseteq> insert v (snd ` set al)"
    using set_update_subset[of k v al] by force
  with Cons show ?case by (cases a) auto
qed

lemma wf_refs_below: "wf_server s \<Longrightarrow> length (heap s) \<notin> snd ` set (inventoryDB s)"
  by (auto simp: wf_server_def)

lemma wf_db_store_new:
  assumes "wf_server s" "12 \<le> r" "r < length (heap s)" "is_record k (heap s ! r)"
    "r \<notin> snd ` set (inventoryDB s)" "k \<noteq> ''__proto__''"
  shows "wf_server (db_store k r s)"
  using assms set_update_subset[of k r "inventoryDB s"]
  by (auto simp: wf_server_def db_store_def AList.distinct_update distinct_snd_update)

lemma wf_fs_writeFile: "wf_server s \<Longrightarrow> wf_server (snd (fs_writeFile e p d s))"
  by (simp add: wf_server_def fs_writeFile_def Let_def)

lemma wf_init: "wf_server (init d)"
  by (simp add: wf_server_def init_def)

section \<open>What the handlers return\<close>

lemma client_view_eq:
  assumes "0 < length (heap s)" "\<not> view_throws (heap s ! 0) (own_props s item)"
  shows "client_view s item = Some (view_of (heap s ! 0) (own_props s item))"
proof -
  from itemToClient_returns[OF assms]
  obtain s1 where "itemToClient item s = (Some (length (heap s)), s1)"
    "heap s1 = heap s @ [view_of (heap s ! 0) (own_props s item)]"
    by auto
  then show ?thesis by (simp add: client_view_def)
qed

lemma json_itemToClient_eq:
  assumes "0 < length (heap s)" "\<not> view_throws (heap s ! 0) (own_props s item)"
  shows "fst (json_itemToClient code item s) =
           \<lparr>status = code, body = JObject (view_of (heap s ! 0) (own_props s item))\<rparr>"
    and "heap (snd (json_itemToClient code item s)) =
           heap s @ [view_of (heap s ! 0) (own_props s item)]"
    and "inventoryDB (snd (json_itemToClient code item s)) = inventoryDB s"
    and "disk (snd (json_itemToClient code item s)) = disk s"
proof -
  from itemToClient_returns[OF assms]
  obtain s1 where i: "itemToClient item s = (Some (length (heap s)), s1)"
    "heap s1 = heap s @ [view_of (heap s ! 0) (own_props s item)]"
    "inventoryDB s1 = inventoryDB s" "disk s1 = disk s"
    by auto
  show "fst (json_itemToClient code item s) =
      \<lparr>status = code, body = JObject (view_of (heap s ! 0) (own_props s item))\<rparr>"
    by (simp add: json_itemToClient_def i res_json_def)
  show "heap (snd (json_itemToClient code item s)) =
      heap s @ [view_of (heap s ! 0) (own_props s item)]"
    by (simp add: json_itemToClient_def i res_json_def)
  show "inventoryDB (snd (json_itemToClient code item s)) = inventoryDB s"
    by (simp add: json_itemToClient_def i res_json_def)
  show "disk (snd (json_itemToClient code item s)) = disk s"
    by (simp add: json_itemToClient_def i res_json_def)
qed

lemma json_itemToClient_prefix:
  "take (length (heap s)) (heap (snd (json_itemToClient code item s))) = heap s"
  "inventoryDB (snd (json_itemToClient code item s)) = inventoryDB s"
  "disk (snd (json_itemToClient code item s)) = disk s"
  using itemToClient_prefix[of s item] itemToClient_db[of item s] itemToClient_disk[of item s]
  by (auto simp: json_itemToClient_def res_json_def split: prod.splits option.splits)

lemma truthy_cases:
  obtains (falsy) "\<not> truthy n" | (truthy) x where "n = Some x" "truthy (Some x)"
  by (cases n) auto

lemma store_files_last: "store_files (fs @ [(p, b)]) d p = Some b"
  by (induction fs arbitrary: d) auto

lemma store_files_append: "store_files (fs @ gs) d = store_files gs (store_files fs d)"
  by (induction fs arbitrary: d) auto

lemma store_files_grows: "d p \<noteq> None \<Longrightarrow> store_files fs d p \<noteq> None"
  by (induction fs arbitrary: d) auto

lemma post_register_parse_error:
  "post_register e (ParseError stored) s =
     (\<lparr>status = 500, body = error_body ''Error parsing form data''\<rparr>,
      s\<lparr>disk := store_files stored (disk s)\<rparr>)"
  by (simp add: post_register_def register_callback_def form_parse_def uploads_def res_json_def)

lemma post_register_reject_photo:
  fixes e :: env
  assumes "\<not> truthy n"
  shows "fst (post_register e (Parsed n d (Some (p, b)) others) s) =
           \<lparr>status = 400, body = error_body ''inventory_name is required''\<rparr>"
    and "heap (snd (post_register e (Parsed n d (Some (p, b)) others) s)) = heap s"
    and "inventoryDB (snd (post_register e (Parsed n d (Some (p, b)) others) s)) = inventoryDB s"
    and "disk (snd (post_register e (Parsed n d (Some (p, b)) others) s)) =
           (if unlink_rejects e then store_files (others @ [(p, b)]) (disk s)
            else (store_files (others @ [(p, b)]) (disk s))(p := None))"
    and "effects (snd (post_register e (Parsed n d (Some (p, b)) others) s)) =
           effects s @ FsUnlink (JStr p) # (if unlink_rejects e then [ConsoleError] else [])"
  using assms store_files_last[of others p b "disk s"]
  by (simp_all add: post_register_def register_callback_def form_parse_def uploads_def
      res_json_def unlink_logged_fields unlinks_JStr)

lemma post_register_reject_plain:
  "\<not> truthy n \<Longrightarrow>
     post_register e (Parsed n d None others) s =
       (\<lparr>status = 400, body = error_body ''inventory_name is required''\<rparr>,
        s\<lparr>disk := store_files others (disk s)\<rparr>)"
  by (simp add: post_register_def register_callback_def form_parse_def uploads_def res_json_def)

lemma post_register_accept:
  fixes e :: env and d :: "jsval option" and ph :: "(string \<times> bytes) option"
  assumes "truthy (Some n)" "0 < length (heap s)"
  defines "newItem \<equiv> [(''id'', JStr (show_uuid (randomUUID e))), (''name'', n),
                      (''description'', or_empty d),
                      (''photoPath'', (case ph of Some (p, b) \<Rightarrow> JStr p | None \<Rightarrow> JNull))]"
  shows "fst (post_register e (Parsed (Some n) d ph others) s) =
           \<lparr>status = 201, body = JObject (view_of (heap s ! 0) newItem)\<rparr>"
    and "heap (snd (post_register e (Parsed (Some n) d ph others) s)) =
           heap s @ [newItem, view_of (heap s ! 0) newItem]"
    and "inventoryDB (snd (post_register e (Parsed (Some n) d ph others) s)) =
           AList.update (show_uuid (randomUUID e)) (length (heap s)) (inventoryDB s)"
    and "disk (snd (post_register e (Parsed (Some n) d ph others) s)) =
           store_files (uploads (Parsed (Some n) d ph others)) (disk s)"
proof -
  define s0 where "s0 = form_parse (Parsed (Some n) d ph others) s"
  have f: "heap s0 = heap s" "inventoryDB s0 = inventoryDB s"
    "disk s0 = store_files (uploads (Parsed (Some n) d ph others)) (disk s)"
    by (simp_all add: s0_def form_parse_def)
  define s2 where "s2 = db_store (show_uuid (randomUUID e)) (length (heap s))
      (s0\<lparr>heap := heap s @ [newItem]\<rparr>)"
  have r: "post_register e (Parsed (Some n) d ph others) s =
      json_itemToClient 201 (Ref (length (heap s))) s2"
    using assms(1) f(1) unfolding s2_def s0_def newItem_def
    by (simp add: post_register_def register_callback_def alloc_def Let_def)
  have h2: "heap s2 = heap s @ [newItem]"
    "inventoryDB s2 = AList.update (show_uuid (randomUUID e)) (length (heap s)) (inventoryDB s)"
    "disk s2 = store_files (uploads (Parsed (Some n) d ph others)) (disk s)"
    using f by (simp_all add: s2_def db_store_def show_uuid_not_proto)
  have p: "0 < length (heap s2)" using h2(1) by simp
  have o: "own_props s2 (Ref (length (heap s))) = newItem" "heap s2 ! 0 = heap s ! 0"
    using assms(2) by (simp_all add: h2(1) nth_append own_props_def)
  have "is_record (show_uuid (randomUUID e)) newItem"
    by (simp add: is_record_def newItem_def)
  then have nt: "\<not> view_throws (heap s2 ! 0) (own_props s2 (Ref (length (heap s))))"
    unfolding o(1) by (rule record_returns)
  from itemToClient_returns[OF p nt]
  obtain s3 where i: "itemToClient (Ref (length (heap s))) s2 = (Some (length (heap s2)), s3)"
    "heap s3 = heap s2 @ [view_of (heap s2 ! 0) (own_props s2 (Ref (length (heap s))))]"
    "inventoryDB s3 = inventoryDB s2" "disk s3 = disk s2"
    by auto
  have r': "post_register e (Parsed (Some n) d ph others) s =
      (\<lparr>status = 201, body = JObject (view_of (heap s ! 0) newItem)\<rparr>, s3)"
    unfolding r json_itemToClient_def i(1) by (simp add: res_json_def i(2) o)
  show "fst (post_register e (Parsed (Some n) d ph others) s) =
           \<lparr>status = 201, body = JObject (view_of (heap s ! 0) newItem)\<rparr>"
    unfolding r' by simp
  show "heap (snd (post_register e (Parsed (Some n) d ph others) s)) =
      heap s @ [newItem, view_of (heap s ! 0) newItem]"
    unfolding r' using o by (simp add: i(2) h2(1))
  show "inventoryDB (snd (post_register e (Parsed (Some n) d ph others) s)) =
           AList.update (show_uuid (randomUUID e)) (length (heap s)) (inventoryDB s)"
    unfolding r' by (simp add: i(3) h2(2))
  show "disk (snd (post_register e (Parsed (Some n) d ph others) s)) =
           store_files (uploads (Parsed (Some n) d ph others)) (disk s)"
    unfolding r' by (simp add: i(4) h2(3))
qed

lemma itemToClient_ref:
  "fst (itemToClient item s) = Some c \<Longrightarrow> c = length (heap s)"
  by (auto simp: itemToClient_def alloc_def split: if_splits option.splits)

lemma search_item_prefix:
  "take (length (heap s)) (heap (snd (search_item k flag s))) = heap s \<and>
   inventoryDB (snd (search_item k flag s)) = inventoryDB s \<and>
   disk (snd (search_item k flag s)) = disk s"
proof (cases "if falsy (db_get s (property_key k)) then None else db_get s (property_key k)")
  case None
  then show ?thesis by (simp add: search_item_def res_json_def)
next
  case (Some item)
  obtain c s1 where i: "itemToClient item s = (c, s1)" by (cases "itemToClient item s")
  have f: "take (length (heap s)) (heap s1) = heap s" "inventoryDB s1 = inventoryDB s"
    "disk s1 = disk s"
    using itemToClient_prefix[of s item] itemToClient_db[of item s] itemToClient_disk[of item s] i
    by simp_all
  show ?thesis
  proof (cases c)
    case None
    with Some i f show ?thesis by (simp add: search_item_def res_json_def)
  next
    case (Some x)
    then have x: "x = length (heap s)" using itemToClient_ref[of item s x] i by simp
    from Some \<open>(if falsy (db_get s (property_key k)) then None else db_get s (property_key k)) = Some item\<close>
      i f x
    show ?thesis
      by (simp add: search_item_def res_json_def set_prop_def Let_def
          split: option.splits prod.splits)
  qed
qed



lemma delete_inventory_absent:
  "falsy (db_get s k) \<Longrightarrow>
     delete_inventory e k s = (\<lparr>status = 404, body = error_body ''Not Found''\<rparr>, s)"
  by (simp add: delete_inventory_def res_json_def)

lemma unlink_photo_record:
  assumes "is_record k (heap s ! r)"
  shows "disk (unlink_photo e (Ref r) s) =
           (case photo_ref s r of
              Some p \<Rightarrow>
                if p \<noteq> [] \<and> disk s p \<noteq> None \<and> \<not> unlink_rejects e then (disk s)(p := None)
                else disk s
            | None \<Rightarrow> disk s)"
proof -
  obtain v where v: "map_of (heap s ! r) ''photoPath'' = Some v"
    using is_record_photoPath[OF assms(1)] by auto
  show ?thesis
    by (cases v)
       (simp_all add: unlink_photo_def record_item_prop[OF assms(1)] v photo_ref_def
          unlink_logged_fields unlinks_def)
qed

lemma unlink_photo_string:
  assumes "is_record k (heap s ! r)" "map_of (heap s ! r) ''photoPath'' = Some (JStr p)" "p \<noteq> []"
  shows "unlink_photo e (Ref r) s = unlink_logged e (JStr p) s"
  by (simp add: unlink_photo_def record_item_prop[OF assms(1)] assms(2,3))

lemma delete_inventory_own:
  fixes e :: env
  assumes "map_of (inventoryDB s) k = Some r"
  shows "fst (delete_inventory e k s) =
           \<lparr>status = 200, body = message_body (''Item '' @ k @ '' deleted'')\<rparr>"
    and "heap (snd (delete_inventory e k s)) = heap s"
    and "inventoryDB (snd (delete_inventory e k s)) = AList.delete k (inventoryDB s)"
    and "disk (snd (delete_inventory e k s)) = disk (unlink_photo e (Ref r) s)"
    and "effects (snd (delete_inventory e k s)) =
           effects (unlink_photo e (Ref r) s) @ [DbDelete k]"
  using assms
  by (simp_all add: delete_inventory_def db_get_own Let_def db_delete_def res_json_def
      unlink_photo_fields)

lemma fs_writeFile_fields:
  "fst (fs_writeFile e p d s) = (\<not> writeFile_rejects e)"
  "heap (snd (fs_writeFile e p d s)) = heap s"
  "inventoryDB (snd (fs_writeFile e p d s)) = inventoryDB s"
  "disk (snd (fs_writeFile e p d s)) = (if writeFile_rejects e then disk s else (disk s)(p \<mapsto> d))"
  "effects (snd (fs_writeFile e p d s)) = effects s @ [FsWriteFile p d]"
  by (simp_all add: fs_writeFile_def Let_def)

lemma put_photo_own:
  fixes e :: env
  assumes "wf_server s" "map_of (inventoryDB s) k = Some r" "d \<noteq> []"
  defines "np \<equiv> path_join e (options_cache e) (''photo_'' @ k @ ''_'' @ show_nat (date_now e) @ ''.jpg'')"
  shows "\<exists>res s'. put_photo e k (Unread d) s = Inr (Some res, s') \<and>
           res = (if writeFile_rejects e
                  then \<lparr>status = 500, body = error_body ''Failed to save photo''\<rparr>
                  else \<lparr>status = 200, body = message_body ''Photo updated''\<rparr>) \<and>
           inventoryDB s' = inventoryDB s \<and>
           heap s' = (if writeFile_rejects e then heap s
                      else (heap s)[r := AList.update ''photoPath'' (JStr np) (heap s ! r)]) \<and>
           disk s' = (if writeFile_rejects e then disk (unlink_photo e (Ref r) s)
                      else (disk (unlink_photo e (Ref r) s))(np \<mapsto> d)) \<and>
           effects s' = effects (unlink_photo e (Ref r) s) @ FsWriteFile np d
              # (if writeFile_rejects e then [] else [Assign r ''photoPath'' (JStr np)])"
proof -
  have nf: "\<not> is_function r" using wf_lookup[OF assms(1,2)] by simp
  show ?thesis
    using assms(2,3) nf unfolding np_def
    by (simp add: put_photo_def db_get_own Let_def case_prod_beta fs_writeFile_fields
        unlink_photo_fields set_prop_def res_json_def)
qed

lemma put_photo_empty:
  "\<not> falsy (db_get s k) \<Longrightarrow>
     put_photo e k (Unread []) s =
       Inr (Some \<lparr>status = 400, body = error_body ''Empty photo data''\<rparr>, s)"
  by (cases "db_get s k") (auto simp: put_photo_def res_json_def)

lemma put_photo_consumed:
  "\<not> falsy (db_get s k) \<Longrightarrow> put_photo e k Consumed s = Inr (None, s)"
  by (cases "db_get s k") (auto simp: put_photo_def)

lemma put_photo_absent:
  "falsy (db_get s k) \<Longrightarrow>
     put_photo e k req s = Inr (Some \<lparr>status = 404, body = error_body ''Not Found''\<rparr>, s)"
  by (simp add: put_photo_def res_json_def)

lemma put_inventory_absent:
  "falsy (db_get s k) \<Longrightarrow>
     put_inventory k b s = Inr (\<lparr>status = 404, body = error_body ''Not Found''\<rparr>, s)"
  by (simp add: put_inventory_def res_json_def)

lemma is_record_assigned:
  "is_record k obj \<Longrightarrow> f \<in> {''name'', ''description'', ''photoPath''} \<Longrightarrow>
     is_record k (assigned f v obj)"
  by (simp add: assigned_def is_record_update split: option.splits)

lemma put_inventory_own:
  fixes b :: jsobj
  assumes "wf_server s" "map_of (inventoryDB s) k = Some r"
  defines "obj2 \<equiv> assigned ''description'' (body_prop s b ''description'')
                    (assigned ''name'' (body_prop s b ''name'') (heap s ! r))"
  shows "\<exists>s'. put_inventory k b s =
                Inr (\<lparr>status = 200, body = JObject (view_of (heap s ! 0) obj2)\<rparr>, s') \<and>
           heap s' = (heap s)[r := obj2] @ [view_of (heap s ! 0) obj2] \<and>
           inventoryDB s' = inventoryDB s \<and> disk s' = disk s"
proof -
  note l = wf_lookup[OF assms(1,2)]
  define obj1 where "obj1 = assigned ''name'' (body_prop s b ''name'') (heap s ! r)"
  define s1 where "s1 = (case body_prop s b ''name'' of
      Some n \<Rightarrow> if truthy (body_prop s b ''name'') then set_prop r ''name'' n s else s | None \<Rightarrow> s)"
  define s2 where "s2 = (case body_prop s b ''description'' of
      Some d \<Rightarrow> if truthy (body_prop s b ''description'') then set_prop r ''description'' d s1 else s1
    | None \<Rightarrow> s1)"
  define s3 where "s3 = db_store k r s2"
  have h1: "heap s1 = (heap s)[r := obj1]" "inventoryDB s1 = inventoryDB s" "disk s1 = disk s"
    using l by (simp_all add: s1_def obj1_def assigned_def set_prop_def split: option.splits)
  have obj2_eq: "obj2 = assigned ''description'' (body_prop s b ''description'') obj1"
    by (simp add: obj2_def obj1_def)
  have h2: "heap s2 = (heap s)[r := obj2]" "inventoryDB s2 = inventoryDB s" "disk s2 = disk s"
    using h1 l
    by (simp_all add: s2_def obj2_eq assigned_def set_prop_def split: option.splits)
  have h3: "heap s3 = (heap s)[r := obj2]" "inventoryDB s3 = inventoryDB s" "disk s3 = disk s"
    using h2 assms(2) by (simp_all add: s3_def db_store_def AList.update_triv)
  have o: "own_props s3 (Ref r) = obj2" "heap s3 ! 0 = heap s ! 0" "0 < length (heap s3)"
    using h3(1) l by (auto simp: own_props_def)
  have "is_record k obj2"
    unfolding obj2_def using l by (simp add: is_record_assigned)
  then have nt: "\<not> view_throws (heap s3 ! 0) (own_props s3 (Ref r))"
    unfolding o(1) by (rule record_returns)
  have p: "put_inventory k b s = Inr (json_itemToClient 200 (Ref r) s3)"
    using assms(2) unfolding s3_def s2_def s1_def
    by (simp add: put_inventory_def db_get_own Let_def)
  show ?thesis
    unfolding p using json_itemToClient_eq[OF o(3) nt, of 200] h3 o(1,2)
    by (cases "json_itemToClient 200 (Ref r) s3") simp
qed

section \<open>Requests under ids that are not inherited\<close>

lemma db_get_cases:
  assumes "k \<notin> set (inherited_names s)"
  obtains (absent) "falsy (db_get s k)" "map_of (inventoryDB s) k = None"
  | (own) r where "map_of (inventoryDB s) k = Some r"
  using assms by (cases "map_of (inventoryDB s) k") (auto simp: db_get_plain)

lemma wf_update_append:
  assumes "wf_server s" "(k, r) \<in> set (inventoryDB s)" "is_record k obj"
    "inventoryDB s' = inventoryDB s" "heap s' = (heap s)[r := obj] @ ys"
  shows "wf_server s'"
proof -
  have "wf_server (s\<lparr>heap := (heap s)[r := obj]\<rparr>)"
    by (rule wf_update_cell[OF assms(1,2,3)]) simp_all
  then show ?thesis
    by (rule wf_prefix) (simp_all add: assms(4,5))
qed

lemma wf_delete_fields:
  "wf_server s \<Longrightarrow> heap s' = heap s \<Longrightarrow> inventoryDB s' = AList.delete k (inventoryDB s) \<Longrightarrow>
     wf_server s'"
  by (auto simp: wf_server_def AList.distinct_delete AList.delete_eq distinct_map_filter)

lemma wf_same_fields:
  "wf_server s \<Longrightarrow> heap s' = heap s \<Longrightarrow> inventoryDB s' = inventoryDB s \<Longrightarrow> wf_server s'"
  by (simp add: wf_server_def)

lemma wf_register:
  assumes "wf_server s" "heap s' = heap s @ [obj, v]"
    "inventoryDB s' = AList.update k (length (heap s)) (inventoryDB s)" "is_record k obj"
  shows "wf_server s'"
proof -
  have len: "12 \<le> length (heap s)" using assms(1) by (simp add: wf_server_def)
  have "0 < length (heap s)" using assms(1) by (rule wf_nonempty)
  then have h0: "heap s' ! 0 = heap s ! 0" by (simp add: assms(2) nth_append)
  have d1: "distinct (map fst (inventoryDB s'))"
    using assms(1) by (simp add: assms(3) wf_server_def AList.distinct_update)
  have d2: "distinct (map snd (inventoryDB s'))"
    using assms(1) wf_refs_below[OF assms(1)]
    by (simp add: assms(3) wf_server_def distinct_snd_update)
  have en: "12 \<le> r' \<and> r' < length (heap s') \<and> is_record k' (heap s' ! r')"
    if "(k', r') \<in> set (inventoryDB s')" for k' r'
  proof -
    from that set_update_subset[of k "length (heap s)" "inventoryDB s"]
    consider "(k', r') = (k, length (heap s))" | "(k', r') \<in> set (inventoryDB s)"
      by (auto simp: assms(3))
    then show ?thesis
    proof cases
      case 1
      then show ?thesis using len assms(4) by (simp add: assms(2) nth_append)
    next
      case 2
      from wf_entry[OF assms(1) 2] show ?thesis by (simp add: assms(2) nth_append)
    qed
  qed
  show ?thesis
    unfolding wf_server_def using len h0 d1 d2 en assms(1)
    by (auto simp: assms(2) wf_server_def)
qed

lemma wf_post_register: "wf_server s \<Longrightarrow> wf_server (snd (post_register e f s))"
proof -
  assume w: "wf_server s"
  show ?thesis
  proof (cases f)
    case (ParseError stored)
    with w show ?thesis by (simp add: post_register_parse_error wf_server_def)
  next
    case (Parsed n d ph others)
    show ?thesis
    proof (cases rule: truthy_cases[of n])
      case falsy
      show ?thesis
      proof (cases ph)
        case None
        with falsy Parsed w show ?thesis by (simp add: post_register_reject_plain wf_server_def)
      next
        case (Some a)
        obtain p b where a: "a = (p, b)" by (cases a)
        note rj = post_register_reject_photo[OF falsy, of e d p b others s]
        show ?thesis
          using wf_same_fields[OF w rj(2,3)] Parsed Some a by simp
      qed
    next
      case (truthy x)
      note ac = post_register_accept[OF truthy(2) wf_nonempty[OF w], of e d ph others]
      show ?thesis
        unfolding Parsed truthy(1)
        by (rule wf_register[OF w ac(2,3)]) (simp add: is_record_def)
    qed
  qed
qed

lemma wf_get_inventory: "wf_server s \<Longrightarrow> wf_server (snd (get_inventory s))"
  by (rule wf_prefix[where s = s])
     (simp_all add: get_inventory_views[OF wf_nonempty wf_refs])

lemma wf_search_item: "wf_server s \<Longrightarrow> wf_server (snd (search_item k flag s))"
  by (rule wf_prefix[where s = s]) (simp_all add: search_item_prefix)

lemma wf_delete_inventory:
  assumes "wf_server s" "k \<notin> set (inherited_names s)"
  shows "wf_server (snd (delete_inventory e k s))"
  using assms(2)
proof (cases rule: db_get_cases)
  case absent
  with assms(1) show ?thesis by (simp add: delete_inventory_absent)
next
  case (own r)
  from delete_inventory_own(2,3)[OF own, of e] show ?thesis
    by (rule wf_delete_fields[OF assms(1)])
qed

lemma wf_put_inventory:
  assumes "wf_server s" "k \<notin> set (inherited_names s)"
  shows "\<exists>res s'. put_inventory k b s = Inr (res, s') \<and> wf_server s'"
  using assms(2)
proof (cases rule: db_get_cases)
  case absent
  with assms(1) show ?thesis by (simp add: put_inventory_absent)
next
  case (own r)
  note l = wf_lookup[OF assms(1) own]
  from put_inventory_own[OF assms(1) own, of b]
  obtain res s' where p: "put_inventory k b s = Inr (res, s')"
    "heap s' = (heap s)[r := assigned ''description'' (body_prop s b ''description'')
                    (assigned ''name'' (body_prop s b ''name'') (heap s ! r))]
               @ [view_of (heap s ! 0) (assigned ''description'' (body_prop s b ''description'')
                    (assigned ''name'' (body_prop s b ''name'') (heap s ! r)))]"
    "inventoryDB s' = inventoryDB s"
    by auto
  have "is_record k (assigned ''description'' (body_prop s b ''description'')
                    (assigned ''name'' (body_prop s b ''name'') (heap s ! r)))"
    using l by (simp add: is_record_assigned)
  from wf_update_append[OF assms(1) map_of_SomeD[OF own] this p(3,2)] p(1)
  show ?thesis by simp
qed

lemma wf_put_photo:
  assumes "wf_server s" "k \<notin> set (inherited_names s)"
  shows "\<exists>res s'. put_photo e k req s = Inr (res, s') \<and> wf_server s'"
  using assms(2)
proof (cases rule: db_get_cases)
  case absent
  with assms(1) show ?thesis by (simp add: put_photo_absent)
next
  case (own r)
  note l = wf_lookup[OF assms(1) own]
  have nf: "\<not> falsy (db_get s k)" using own by (simp add: db_get_own)
  show ?thesis
  proof (cases req)
    case Consumed
    with nf assms(1) show ?thesis by (simp add: put_photo_consumed)
  next
    case (Unread d)
    show ?thesis
    proof (cases "d = []")
      case True
      with Unread nf assms(1) show ?thesis by (simp add: put_photo_empty)
    next
      case False
      from put_photo_own[OF assms(1) own False, of e]
      obtain res s' where p: "put_photo e k (Unread d) s = Inr (Some res, s')"
        "inventoryDB s' = inventoryDB s"
        "heap s' = (if writeFile_rejects e then heap s
                    else (heap s)[r := AList.update ''photoPath''
                      (JStr (path_join e (options_cache e)
                         (''photo_'' @ k @ ''_'' @ show_nat (date_now e) @ ''.jpg''))) (heap s ! r)])"
        by auto
      have "wf_server s'"
      proof (cases "writeFile_rejects e")
        case True
        with p(2,3) assms(1) show ?thesis by (simp add: wf_server_def)
      next
        case False
        have "is_record k (AList.update ''photoPath''
                      (JStr (path_join e (options_cache e)
                         (''photo_'' @ k @ ''_'' @ show_nat (date_now e) @ ''.jpg''))) (heap s ! r))"
          using l by (simp add: is_record_update)
        from wf_update_cell[OF assms(1) map_of_SomeD[OF own] this p(2)] p(3) False
        show ?thesis by simp
      qed
      with p(1) Unread show ?thesis by simp
    qed
  qed
qed

lemma answered:
  "P (snd x) \<Longrightarrow> \<exists>res s'. Inr (map_prod Some id x) = Inr (res, s') \<and> P s'"
  by (cases x) simp

lemma wf_step:
  assumes "wf_server s" "plain_request q s"
  shows "\<exists>res s'. step q s = Inr (res, s') \<and> wf_server s'"
proof (cases q)
  case (ReqRegister e f)
  with answered[of wf_server, OF wf_post_register[OF assms(1), of e f]] show ?thesis by simp
next
  case ReqList
  with answered[of wf_server, OF wf_get_inventory[OF assms(1)]] show ?thesis by simp
next
  case (ReqUpdate k b)
  with assms(2) have "k \<notin> set (inherited_names s)" by simp
  from wf_put_inventory[OF assms(1) this, of b] ReqUpdate show ?thesis by auto
next
  case (ReqDelete e k)
  with assms(2) have "k \<notin> set (inherited_names s)" by simp
  from answered[of wf_server, OF wf_delete_inventory[OF assms(1) this, of e]] ReqDelete
  show ?thesis by simp
next
  case (ReqPutPhoto e k req)
  with assms(2) have "k \<notin> set (inherited_names s)" by simp
  from wf_put_photo[OF assms(1) this, of e req] ReqPutPhoto show ?thesis by simp
next
  case (ReqSearchGet k f)
  with answered[of wf_server "search_item k f s", OF wf_search_item[OF assms(1)]]
  show ?thesis by (simp add: get_search_def)
next
  case (ReqSearchPost k f)
  with answered[of wf_server "search_item k f s", OF wf_search_item[OF assms(1)]]
  show ?thesis by (simp add: post_search_def)
qed

section \<open>Photo references along a run\<close>

lemma no_danglingI:
  "(\<And>k r p. (k, r) \<in> set (inventoryDB s) \<Longrightarrow> photo_ref s r = Some p \<Longrightarrow> disk s p \<noteq> None)
     \<Longrightarrow> no_dangling s"
  unfolding no_dangling_def by (auto split: option.splits)

lemma no_danglingD:
  "no_dangling s \<Longrightarrow> (k, r) \<in> set (inventoryDB s) \<Longrightarrow> photo_ref s r = Some p \<Longrightarrow>
     disk s p \<noteq> None"
  unfolding no_dangling_def by (auto split: option.splits)

lemma exclusiveI:
  "(\<And>k r k' r' p. (k, r) \<in> set (inventoryDB s) \<Longrightarrow> (k', r') \<in> set (inventoryDB s) \<Longrightarrow>
       k \<noteq> k' \<Longrightarrow> photo_ref s r = Some p \<Longrightarrow> photo_ref s r' \<noteq> Some p)
     \<Longrightarrow> exclusive s"
  unfolding exclusive_def by fastforce

lemma exclusiveD:
  "exclusive s \<Longrightarrow> (k, r) \<in> set (inventoryDB s) \<Longrightarrow> (k', r') \<in> set (inventoryDB s) \<Longrightarrow>
     k \<noteq> k' \<Longrightarrow> photo_ref s r = Some p \<Longrightarrow> photo_ref s r' \<noteq> Some p"
  unfolding exclusive_def by fastforce

lemma referencedI:
  "(k, r) \<in> set (inventoryDB s) \<Longrightarrow> photo_ref s r = Some p \<Longrightarrow> referenced s p"
  unfolding referenced_def by auto

lemma referenced_by_otherI:
  "(k', r') \<in> set (inventoryDB s) \<Longrightarrow> k' \<noteq> k \<Longrightarrow> photo_ref s r' = Some p \<Longrightarrow>
     referenced_by_other s k p"
  unfolding referenced_by_other_def by auto

lemma photo_ref_cong: "heap s' ! r = heap s ! r \<Longrightarrow> photo_ref s' r = photo_ref s r"
  by (simp add: photo_ref_def)

lemma consistent_same_db:
  assumes "consistent s" "wf_server s'" "inventoryDB s' = inventoryDB s"
    and refs: "\<And>k r. (k, r) \<in> set (inventoryDB s) \<Longrightarrow> photo_ref s' r = photo_ref s r"
    and files: "\<And>p. referenced s p \<Longrightarrow> disk s p \<noteq> None \<Longrightarrow> disk s' p \<noteq> None"
  shows "consistent s'"
proof -
  have e: "exclusive s" and n: "no_dangling s" using assms(1) by (simp_all add: consistent_def)
  have "exclusive s'"
  proof (rule exclusiveI)
    fix k r k' r' p
    assume "(k, r) \<in> set (inventoryDB s')" "(k', r') \<in> set (inventoryDB s')" "k \<noteq> k'"
      "photo_ref s' r = Some p"
    then show "photo_ref s' r' \<noteq> Some p"
      using exclusiveD[OF e, of k r k' r' p] refs assms(3) by simp
  qed
  moreover have "no_dangling s'"
  proof (rule no_danglingI)
    fix k r p
    assume a: "(k, r) \<in> set (inventoryDB s')" "photo_ref s' r = Some p"
    then have b: "(k, r) \<in> set (inventoryDB s)" "photo_ref s r = Some p"
      using refs assms(3) by simp_all
    from files[OF referencedI[OF b] no_danglingD[OF n b]] show "disk s' p \<noteq> None" .
  qed
  ultimately show ?thesis using assms(2) by (simp add: consistent_def)
qed

lemma consistent_frame:
  assumes "consistent s" "wf_server s'" "inventoryDB s' = inventoryDB s" "disk s' = disk s"
    and "take (length (heap s)) (heap s') = heap s"
  shows "consistent s'"
proof (rule consistent_same_db[OF assms(1,2,3)])
  fix k r
  assume "(k, r) \<in> set (inventoryDB s)"
  then have "r < length (heap s)" using assms(1) by (auto simp: consistent_def wf_server_def)
  then have "heap s' ! r = heap s ! r" using assms(5) by (metis nth_take)
  then show "photo_ref s' r = photo_ref s r" by (rule photo_ref_cong)
next
  fix p
  show "disk s p \<noteq> None \<Longrightarrow> disk s' p \<noteq> None" using assms(4) by simp
qed

text \<open>The files that the unlink of a record's photo leaves.\<close>

lemma unlink_photo_keeps:
  assumes "is_record k (heap s ! r)" "photo_ref s r \<noteq> Some p"
  shows "disk (unlink_photo e (Ref r) s) p = disk s p"
  using assms(2) by (simp add: unlink_photo_record[OF assms(1)] split: option.splits)

lemma consistent_delete:
  assumes "consistent s" "wf_server s'" "map_of (inventoryDB s) k = Some r"
    and "inventoryDB s' = AList.delete k (inventoryDB s)" and "heap s' = heap s"
    and "disk s' = disk (unlink_photo e (Ref r) s)"
  shows "consistent s'"
proof -
  have e: "exclusive s" and n: "no_dangling s" and w: "wf_server s"
    using assms(1) by (simp_all add: consistent_def)
  have m: "(k, r) \<in> set (inventoryDB s)" using assms(3) by (rule map_of_SomeD)
  have rec: "is_record k (heap s ! r)" using wf_entry[OF w m] by simp
  have sub: "(k', r') \<in> set (inventoryDB s) \<and> k' \<noteq> k" if "(k', r') \<in> set (inventoryDB s')" for k' r'
    using that assms(4) by (auto simp: AList.delete_eq)
  have pr: "photo_ref s' r' = photo_ref s r'" for r'
    using assms(5) by (simp add: photo_ref_def)
  have "exclusive s'"
  proof (rule exclusiveI)
    fix k1 r1 k2 r2 p
    assume "(k1, r1) \<in> set (inventoryDB s')" "(k2, r2) \<in> set (inventoryDB s')" "k1 \<noteq> k2"
      "photo_ref s' r1 = Some p"
    then show "photo_ref s' r2 \<noteq> Some p"
      using exclusiveD[OF e, of k1 r1 k2 r2 p] sub pr by simp
  qed
  moreover have "no_dangling s'"
  proof (rule no_danglingI)
    fix k' r' p
    assume a: "(k', r') \<in> set (inventoryDB s')" "photo_ref s' r' = Some p"
    then have b: "(k', r') \<in> set (inventoryDB s)" "k' \<noteq> k" "photo_ref s r' = Some p"
      using sub pr by simp_all
    have d: "disk s p \<noteq> None" using no_danglingD[OF n b(1,3)] .
    have "photo_ref s r \<noteq> Some p"
      using exclusiveD[OF e b(1) m b(2) b(3)] .
    from unlink_photo_keeps[OF rec this, of e] d show "disk s' p \<noteq> None"
      by (simp add: assms(6))
  qed
  ultimately show ?thesis using assms(2) by (simp add: consistent_def)
qed

lemma set_update_cases:
  "distinct (map fst al) \<Longrightarrow> (k', v') \<in> set (AList.update k v al) \<Longrightarrow>
     (k', v') = (k, v) \<or> ((k', v') \<in> set al \<and> k' \<noteq> k)"
  by (induction al) (force split: if_splits)+

lemma consistent_register:
  assumes "consistent s" "wf_server s'"
    and "inventoryDB s' = AList.update k (length (heap s)) (inventoryDB s)"
    and "heap s' = heap s @ [obj, v]"
    and "photo_ref s' (length (heap s)) = map_option fst ph"
    and grow: "\<And>p. disk s p \<noteq> None \<Longrightarrow> disk s' p \<noteq> None"
    and "case ph of Some (p, b) \<Rightarrow> disk s' p \<noteq> None \<and> \<not> referenced s p | None \<Rightarrow> True"
  shows "consistent s'"
proof -
  have e: "exclusive s" and n: "no_dangling s" and w: "wf_server s"
    using assms(1) by (simp_all add: consistent_def)
  have old: "r' < length (heap s) \<and> photo_ref s' r' = photo_ref s r'"
    if "(k', r') \<in> set (inventoryDB s)" for k' r'
  proof -
    from that w have "r' < length (heap s)" by (auto simp: wf_server_def)
    then show ?thesis using assms(4) by (simp add: photo_ref_def nth_append)
  qed
  have cases: "(k', r') = (k, length (heap s)) \<or> ((k', r') \<in> set (inventoryDB s) \<and> k' \<noteq> k)"
    if "(k', r') \<in> set (inventoryDB s')" for k' r'
    using that assms(3) set_update_cases[of "inventoryDB s" k' r' k "length (heap s)"] w
    by (simp add: wf_server_def)
  have fresh: "photo_ref s r' \<noteq> Some p"
    if "(k', r') \<in> set (inventoryDB s)" "map_option fst ph = Some p" for k' r' p
    using that assms(7) referencedI[OF that(1), of p] by (auto split: option.splits)
  have "exclusive s'"
  proof (rule exclusiveI)
    fix k1 r1 k2 r2 p
    assume a: "(k1, r1) \<in> set (inventoryDB s')" "(k2, r2) \<in> set (inventoryDB s')" "k1 \<noteq> k2"
      "photo_ref s' r1 = Some p"
    from cases[OF a(1)] cases[OF a(2)] a(3)
    consider "(k1, r1) = (k, length (heap s))" "(k2, r2) \<in> set (inventoryDB s)"
      | "(k1, r1) \<in> set (inventoryDB s)" "(k2, r2) = (k, length (heap s))"
      | "(k1, r1) \<in> set (inventoryDB s)" "(k2, r2) \<in> set (inventoryDB s)"
      by auto
    then show "photo_ref s' r2 \<noteq> Some p"
    proof cases
      case 1
      with a(4) assms(5) have "map_option fst ph = Some p" by simp
      from fresh[OF 1(2) this] old[OF 1(2)] show ?thesis by simp
    next
      case 2
      show ?thesis
      proof
        assume "photo_ref s' r2 = Some p"
        with 2(2) assms(5) have "map_option fst ph = Some p" by simp
        from fresh[OF 2(1) this] old[OF 2(1)] a(4) show False by simp
      qed
    next
      case 3
      with exclusiveD[OF e 3(1) 3(2) a(3), of p] old a(4) show ?thesis by simp
    qed
  qed
  moreover have "no_dangling s'"
  proof (rule no_danglingI)
    fix k' r' p
    assume a: "(k', r') \<in> set (inventoryDB s')" "photo_ref s' r' = Some p"
    from cases[OF a(1)] show "disk s' p \<noteq> None"
    proof
      assume "(k', r') = (k, length (heap s))"
      with a(2) assms(5) have "map_option fst ph = Some p" by simp
      then show ?thesis using assms(7) by (auto split: option.splits)
    next
      assume b: "(k', r') \<in> set (inventoryDB s) \<and> k' \<noteq> k"
      then have c: "(k', r') \<in> set (inventoryDB s)" by simp
      with old[of k' r'] a(2) have "photo_ref s r' = Some p" by simp
      from grow[OF no_danglingD[OF n c this]] show ?thesis .
    qed
  qed
  ultimately show ?thesis using assms(2) by (simp add: consistent_def)
qed

lemma consistent_put_photo:
  assumes "consistent s" "wf_server s'" "map_of (inventoryDB s) k = Some r"
    and "inventoryDB s' = inventoryDB s"
    and "heap s' = (heap s)[r := AList.update ''photoPath'' (JStr np) (heap s ! r)]"
    and "disk s' = (disk (unlink_photo e (Ref r) s))(np \<mapsto> d)"
    and "\<not> referenced_by_other s k np"
  shows "consistent s'"
proof -
  have e: "exclusive s" and n: "no_dangling s" and w: "wf_server s"
    using assms(1) by (simp_all add: consistent_def)
  have m: "(k, r) \<in> set (inventoryDB s)" using assms(3) by (rule map_of_SomeD)
  have r: "r < length (heap s)" and rec: "is_record k (heap s ! r)"
    using wf_entry[OF w m] by simp_all
  have new: "photo_ref s' r = Some np"
    using assms(5) r by (simp add: photo_ref_def AList.update_conv')
  have key: "k' = k \<longleftrightarrow> r' = r" if "(k', r') \<in> set (inventoryDB s)" for k' r'
    using wf_same_key[OF w m that] .
  have old: "photo_ref s' r' = photo_ref s r'" if "(k', r') \<in> set (inventoryDB s)" "k' \<noteq> k" for k' r'
    using key[OF that(1)] that(2) assms(5) by (simp add: photo_ref_def)
  have other: "photo_ref s r' \<noteq> Some np" if "(k', r') \<in> set (inventoryDB s)" "k' \<noteq> k" for k' r'
    using referenced_by_otherI[OF that, of np] assms(7) by auto
  have "exclusive s'"
  proof (rule exclusiveI)
    fix k1 r1 k2 r2 p
    assume a: "(k1, r1) \<in> set (inventoryDB s')" "(k2, r2) \<in> set (inventoryDB s')" "k1 \<noteq> k2"
      "photo_ref s' r1 = Some p"
    then have b: "(k1, r1) \<in> set (inventoryDB s)" "(k2, r2) \<in> set (inventoryDB s)"
      using assms(4) by simp_all
    consider "k1 = k" "k2 \<noteq> k" | "k1 \<noteq> k" "k2 = k" | "k1 \<noteq> k" "k2 \<noteq> k" using a(3) by auto
    then show "photo_ref s' r2 \<noteq> Some p"
    proof cases
      case 1
      then have "r1 = r" using key[OF b(1)] by simp
      with a(4) new have "p = np" by simp
      with other[OF b(2) 1(2)] old[OF b(2) 1(2)] show ?thesis by simp
    next
      case 2
      then have "r2 = r" using key[OF b(2)] by simp
      with new other[OF b(1) 2(1)] old[OF b(1) 2(1)] a(4) show ?thesis by auto
    next
      case 3
      with exclusiveD[OF e b a(3), of p] old[OF b(1)] old[OF b(2)] a(4) show ?thesis by simp
    qed
  qed
  moreover have "no_dangling s'"
  proof (rule no_danglingI)
    fix k' r' p
    assume a: "(k', r') \<in> set (inventoryDB s')" "photo_ref s' r' = Some p"
    then have b: "(k', r') \<in> set (inventoryDB s)" using assms(4) by simp
    show "disk s' p \<noteq> None"
    proof (cases "k' = k")
      case True
      then have "r' = r" using key[OF b] by simp
      with a(2) new have "p = np" by simp
      then show ?thesis using assms(6) by simp
    next
      case False
      have q: "photo_ref s r' = Some p" using old[OF b False] a(2) by simp
      have d: "disk s p \<noteq> None" using no_danglingD[OF n b q] .
      have "photo_ref s r \<noteq> Some p" using exclusiveD[OF e b m False q] .
      from unlink_photo_keeps[OF rec this, of e] d show ?thesis
        by (simp add: assms(6))
    qed
  qed
  ultimately show ?thesis using assms(2) by (simp add: consistent_def)
qed

lemma assigned_photoPath:
  "map_of (assigned ''description'' v2 (assigned ''name'' v1 obj)) ''photoPath'' =
     map_of obj ''photoPath''"
  by (simp add: assigned_def AList.update_conv' split: option.splits)

lemma answer_eq: "map_prod Some id x = (res, s') \<Longrightarrow> s' = snd x \<and> res = Some (fst x)"
  by (cases x) auto

lemma consistent_step:
  assumes "consistent s" "fresh_paths q s" "plain_request q s" "\<not> replace_fails q s"
  shows "\<exists>res s'. step q s = Inr (res, s') \<and> consistent s'"
proof -
  have w: "wf_server s" using assms(1) by (simp add: consistent_def)
  from wf_step[OF w assms(3)]
  obtain res s' where st: "step q s = Inr (res, s')" and w': "wf_server s'" by auto
  have "consistent s'"
  proof (cases q)
    case (ReqRegister e f)
    then have s': "s' = snd (post_register e f s)" using st by (auto dest: answer_eq)
    show ?thesis
    proof (cases f)
      case (ParseError stored)
      show ?thesis
        by (rule consistent_same_db[OF assms(1) w'])
           (simp_all add: s' ParseError post_register_parse_error photo_ref_def store_files_grows)
    next
      case (Parsed n d ph others)
      show ?thesis
      proof (cases rule: truthy_cases[of n])
        case falsy
        show ?thesis
        proof (cases ph)
          case None
          show ?thesis
            by (rule consistent_same_db[OF assms(1) w'])
               (simp_all add: s' Parsed None post_register_reject_plain[OF falsy] photo_ref_def
                  store_files_grows)
        next
          case (Some a)
          obtain p b where a: "a = (p, b)" by (cases a)
          have fr: "\<not> referenced s p" using assms(2) ReqRegister Parsed Some a by simp
          note rj = post_register_reject_photo[OF falsy, of e d p b others s]
          show ?thesis
          proof (rule consistent_same_db[OF assms(1) w'])
            show "inventoryDB s' = inventoryDB s" using s' Parsed Some a rj(3) by simp
          next
            fix k r
            show "photo_ref s' r = photo_ref s r"
              using s' Parsed Some a rj(2) by (simp add: photo_ref_def)
          next
            fix p'
            assume "referenced s p'" "disk s p' \<noteq> None"
            with fr have "p' \<noteq> p" by auto
            with \<open>disk s p' \<noteq> None\<close> show "disk s' p' \<noteq> None"
              using s' Parsed Some a rj(4) store_files_grows[of "disk s" p' "others @ [(p, b)]"]
              by simp
          qed
        qed
      next
        case (truthy x)
        note ac = post_register_accept[OF truthy(2) wf_nonempty[OF w], of e d ph others]
        show ?thesis
        proof (rule consistent_register[OF assms(1) w', where ph = ph])
          show "inventoryDB s' = AList.update (show_uuid (randomUUID e)) (length (heap s)) (inventoryDB s)"
            using s' Parsed truthy(1) ac(3) by simp
          show "heap s' = heap s @
              [[(''id'', JStr (show_uuid (randomUUID e))), (''name'', x),
                (''description'', or_empty d),
                (''photoPath'', (case ph of Some (p, b) \<Rightarrow> JStr p | None \<Rightarrow> JNull))],
               view_of (heap s ! 0) [(''id'', JStr (show_uuid (randomUUID e))), (''name'', x),
                (''description'', or_empty d),
                (''photoPath'', (case ph of Some (p, b) \<Rightarrow> JStr p | None \<Rightarrow> JNull))]]"
            using s' Parsed truthy(1) ac(2) by simp
          show "photo_ref s' (length (heap s)) = map_option fst ph"
            using s' Parsed truthy(1) ac(2) by (simp add: photo_ref_def split: option.splits)
          show "disk s p \<noteq> None \<Longrightarrow> disk s' p \<noteq> None" for p
            using s' Parsed truthy(1) ac(4) by (simp add: store_files_grows)
          show "case ph of Some (p, b) \<Rightarrow> disk s' p \<noteq> None \<and> \<not> referenced s p | None \<Rightarrow> True"
            using assms(2) ReqRegister Parsed s' truthy(1) ac(4)
            by (cases ph) (auto simp: uploads_def store_files_last)
        qed
      qed
    qed
  next
    case ReqList
    then have s': "s' = snd (get_inventory s)" using st by (auto dest: answer_eq)
    show ?thesis
      by (rule consistent_frame[OF assms(1) w'])
         (simp_all add: s' get_inventory_views[OF wf_nonempty[OF w] wf_refs[OF w]])
  next
    case (ReqUpdate k b)
    with assms(3) have pl: "k \<notin> set (inherited_names s)" by simp
    from pl show ?thesis
    proof (cases rule: db_get_cases)
      case absent
      with ReqUpdate assms(1) st show ?thesis by (auto simp: put_inventory_absent)
    next
      case (own r)
      note l = wf_lookup[OF w own]
      from put_inventory_own[OF w own, of b] ReqUpdate st
      obtain obj2 where o: "heap s' = (heap s)[r := obj2] @ [view_of (heap s ! 0) obj2]"
        "map_of obj2 ''photoPath'' = map_of (heap s ! r) ''photoPath''"
        "inventoryDB s' = inventoryDB s" "disk s' = disk s"
        by (auto simp: assigned_photoPath)
      show ?thesis
      proof (rule consistent_same_db[OF assms(1) w' o(3)])
        fix k' r'
        assume "(k', r') \<in> set (inventoryDB s)"
        then have "r' < length (heap s)" using w by (auto simp: wf_server_def)
        then show "photo_ref s' r' = photo_ref s r'"
          using o(1,2) by (cases "r' = r") (simp_all add: photo_ref_def nth_append)
      next
        fix p
        show "disk s p \<noteq> None \<Longrightarrow> disk s' p \<noteq> None" using o(4) by simp
      qed
    qed
  next
    case (ReqDelete e k)
    then have s': "s' = snd (delete_inventory e k s)" using st by (auto dest: answer_eq)
    from ReqDelete assms(3) have pl: "k \<notin> set (inherited_names s)" by simp
    from pl show ?thesis
    proof (cases rule: db_get_cases)
      case absent
      with s' assms(1) show ?thesis by (simp add: delete_inventory_absent)
    next
      case (own r)
      note dl = delete_inventory_own[OF own, of e]
      show ?thesis
        by (rule consistent_delete[OF assms(1) w' own, where e = e]) (simp_all add: s' dl)
    qed
  next
    case (ReqPutPhoto e k req)
    with assms(3) have pl: "k \<notin> set (inherited_names s)" by simp
    from pl show ?thesis
    proof (cases rule: db_get_cases)
      case absent
      with ReqPutPhoto assms(1) st show ?thesis by (auto simp: put_photo_absent)
    next
      case (own r)
      note l = wf_lookup[OF w own]
      have nf: "\<not> falsy (db_get s k)" using own by (simp add: db_get_own)
      show ?thesis
      proof (cases req)
        case Consumed
        with nf ReqPutPhoto assms(1) st show ?thesis by (auto simp: put_photo_consumed)
      next
        case (Unread d)
        show ?thesis
        proof (cases "d = []")
          case True
          with Unread nf ReqPutPhoto assms(1) st show ?thesis by (auto simp: put_photo_empty)
        next
          case False
          let ?np = "path_join e (options_cache e)
                       (''photo_'' @ k @ ''_'' @ show_nat (date_now e) @ ''.jpg'')"
          from put_photo_own[OF w own False, of e] ReqPutPhoto Unread st
          have f: "inventoryDB s' = inventoryDB s"
            "heap s' = (if writeFile_rejects e then heap s
                        else (heap s)[r := AList.update ''photoPath'' (JStr ?np) (heap s ! r)])"
            "disk s' = (if writeFile_rejects e then disk (unlink_photo e (Ref r) s)
                        else (disk (unlink_photo e (Ref r) s))(?np \<mapsto> d))"
            by auto
          show ?thesis
          proof (cases "writeFile_rejects e")
            case True
            have "disk (unlink_photo e (Ref r) s) = disk s"
              using assms(4) ReqPutPhoto Unread False True own l
              by (auto simp: unlink_photo_record split: option.splits)
            with f True have "disk s' = disk s" "heap s' = heap s" by simp_all
            then show ?thesis
              by (intro consistent_frame[OF assms(1) w' f(1)]) simp_all
          next
            case ok: False
            have fr: "\<not> referenced_by_other s k ?np"
              using assms(2) ReqPutPhoto by simp
            show ?thesis
              by (rule consistent_put_photo[OF assms(1) w' own f(1) _ _ fr, where e = e and d = d])
                 (simp_all add: f ok)
          qed
        qed
      qed
    qed
  next
    case (ReqSearchGet k f)
    then have s': "s' = snd (search_item k f s)"
      using st by (auto simp: get_search_def dest: answer_eq)
    show ?thesis
      by (rule consistent_frame[OF assms(1) w']) (simp_all add: s' search_item_prefix)
  next
    case (ReqSearchPost k f)
    then have s': "s' = snd (search_item k f s)"
      using st by (auto simp: post_search_def dest: answer_eq)
    show ?thesis
      by (rule consistent_frame[OF assms(1) w']) (simp_all add: s' search_item_prefix)
  qed
  with st show ?thesis by simp
qed

lemma consistent_run:
  "consistent s \<Longrightarrow>
   along (\<lambda>q s. fresh_paths q s \<and> plain_request q s \<and> \<not> replace_fails q s) qs s \<Longrightarrow>
     \<exists>s'. run qs s = Inr s' \<and> consistent s'"
proof (induction qs arbitrary: s)
  case Nil
  then show ?case by simp
next
  case (Cons q qs)
  from Cons.prems(2) have a: "fresh_paths q s" "plain_request q s" "\<not> replace_fails q s"
    by simp_all
  from consistent_step[OF Cons.prems(1) a]
  obtain res s1 where st: "step q s = Inr (res, s1)" and c: "consistent s1" by auto
  from Cons.prems(2) st
  have "along (\<lambda>q s. fresh_paths q s \<and> plain_request q s \<and> \<not> replace_fails q s) qs s1"
    by simp
  from Cons.IH[OF c this] st show ?case by simp
qed

lemma consistent_init: "consistent (init d)"
  using wf_init[of d] by (simp add: consistent_def exclusive_def no_dangling_def init_def)

section \<open>The example states\<close>

lemma hex_digits_numeral:
  "hex_digits (numeral k) n =
     hex_digits (pred_numeral k) (n div 16) @ [''0123456789abcdef'' ! (n mod 16)]"
  unfolding numeral_eq_Suc[of k] by (rule hex_digits.simps)

lemma show_uuid_example: "show_uuid 16170 = example_id"
proof -
  have "hex_digits 32 16170 = ''00000000000000000000000000003f2a''"
    by (simp add: hex_digits_numeral)
  then show ?thesis by (simp add: show_uuid_def example_id_def)
qed

lemma show_nat_5: "show_nat 5 = ''5''"
  by (simp add: show_nat.simps)


lemma example_server_fields:
  "heap example_server = replicate 12 [] @
     [[(''id'', JStr example_id), (''name'', JStr ''Widget''), (''description'', JStr ''blue''),
       (''photoPath'', JStr ''cache/up1.jpg'')],
      [(''id'', JStr example_id), (''name'', JStr ''Widget''), (''description'', JStr ''blue''),
       (''photoUrl'', JStr (''/inventory/'' @ example_id @ ''/photo''))]]"
  "inventoryDB example_server = [(example_id, 12)]"
  "disk example_server = [''cache/up1.jpg'' \<mapsto> ''JPG1'']"
proof -
  have t: "truthy (Some (JStr ''Widget''))" by simp
  have p: "0 < length (heap (init Map.empty))" by (simp add: init_def)
  note ac = post_register_accept[OF t p, of example_env "Some (JStr ''blue'')"
      "Some (''cache/up1.jpg'', ''JPG1'')" "[]"]
  have u: "show_uuid (randomUUID example_env) = example_id"
    by (simp add: example_env_def show_uuid_example)
  show "heap example_server = replicate 12 [] @
     [[(''id'', JStr example_id), (''name'', JStr ''Widget''), (''description'', JStr ''blue''),
       (''photoPath'', JStr ''cache/up1.jpg'')],
      [(''id'', JStr example_id), (''name'', JStr ''Widget''), (''description'', JStr ''blue''),
       (''photoUrl'', JStr (''/inventory/'' @ example_id @ ''/photo''))]]"
    unfolding example_server_def example_form_def ac(2) u
    by (simp add: init_def or_empty_def view_of_def inherited_def template_def)
  show "inventoryDB example_server = [(example_id, 12)]"
    unfolding example_server_def example_form_def ac(3) u by (simp add: init_def)
  show "disk example_server = [''cache/up1.jpg'' \<mapsto> ''JPG1'']"
    unfolding example_server_def example_form_def ac(4) by (simp add: init_def uploads_def)
qed

lemma wf_example_server: "wf_server example_server"
  by (simp add: wf_server_def example_server_fields is_record_def nth_append)

lemma example_lookup:
  "map_of (inventoryDB example_server) example_id = Some 12"
  "heap example_server ! 12 =
     [(''id'', JStr example_id), (''name'', JStr ''Widget''), (''description'', JStr ''blue''),
      (''photoPath'', JStr ''cache/up1.jpg'')]"
  "heap example_server ! 0 = []"
  by (simp_all add: example_server_fields nth_append)

lemma step_example_register:
  "step (ReqRegister example_env example_form) (init Map.empty) =
     Inr (Some (fst (post_register example_env example_form (init Map.empty))), example_server)"
  by (cases "post_register example_env example_form (init Map.empty)")
     (simp add: example_server_def)

section \<open>Replacing a photo\<close>

lemma put_photo_replaces:
  fixes e :: env
  assumes "wf_server s" "map_of (inventoryDB s) k = Some r"
    "map_of (heap s ! r) ''photoPath'' = Some (JStr old)" "old \<noteq> []" "d \<noteq> []"
  defines "np \<equiv> path_join e (options_cache e) (''photo_'' @ k @ ''_'' @ show_nat (date_now e) @ ''.jpg'')"
  defines "d1 \<equiv> (if disk s old \<noteq> None \<and> \<not> unlink_rejects e then (disk s)(old := None) else disk s)"
  shows "\<exists>res s'. put_photo e k (Unread d) s = Inr (Some res, s') \<and>
           res = (if writeFile_rejects e
                  then \<lparr>status = 500, body = error_body ''Failed to save photo''\<rparr>
                  else \<lparr>status = 200, body = message_body ''Photo updated''\<rparr>) \<and>
           inventoryDB s' = inventoryDB s \<and>
           heap s' = (if writeFile_rejects e then heap s
                      else (heap s)[r := AList.update ''photoPath'' (JStr np) (heap s ! r)]) \<and>
           disk s' = (if writeFile_rejects e then d1 else d1(np \<mapsto> d)) \<and>
           effects s' = effects s
              @ FsUnlink (JStr old)
              # (if disk s old \<noteq> None \<and> \<not> unlink_rejects e then [] else [ConsoleError])
              @ FsWriteFile np d
              # (if writeFile_rejects e then [] else [Assign r ''photoPath'' (JStr np)])"
proof -
  have rec: "is_record k (heap s ! r)" using wf_lookup[OF assms(1,2)] by simp
  have u: "unlink_photo e (Ref r) s = unlink_logged e (JStr old) s"
    using rec assms(3,4) by (rule unlink_photo_string)
  have dk: "disk (unlink_logged e (JStr old) s) = d1"
    by (simp add: d1_def unlink_logged_fields unlinks_JStr)
  have ef: "effects (unlink_logged e (JStr old) s) =
      effects s @ FsUnlink (JStr old)
        # (if disk s old \<noteq> None \<and> \<not> unlink_rejects e then [] else [ConsoleError])"
    by (simp add: unlink_logged_fields unlinks_JStr)
  from put_photo_own[OF assms(1,2,5), of e]
  obtain res s' where p: "put_photo e k (Unread d) s = Inr (Some res, s')"
    "res = (if writeFile_rejects e
            then \<lparr>status = 500, body = error_body ''Failed to save photo''\<rparr>
            else \<lparr>status = 200, body = message_body ''Photo updated''\<rparr>)"
    "inventoryDB s' = inventoryDB s"
    "heap s' = (if writeFile_rejects e then heap s
                else (heap s)[r := AList.update ''photoPath'' (JStr np) (heap s ! r)])"
    "disk s' = (if writeFile_rejects e then disk (unlink_photo e (Ref r) s)
                else (disk (unlink_photo e (Ref r) s))(np \<mapsto> d))"
    "effects s' = effects (unlink_photo e (Ref r) s) @ FsWriteFile np d
        # (if writeFile_rejects e then [] else [Assign r ''photoPath'' (JStr np)])"
    unfolding np_def by blast
  have "disk s' = (if writeFile_rejects e then d1 else d1(np \<mapsto> d))"
    using p(5) by (simp add: u dk)
  moreover have "effects s' = effects s
      @ FsUnlink (JStr old)
      # (if disk s old \<noteq> None \<and> \<not> unlink_rejects e then [] else [ConsoleError])
      @ FsWriteFile np d
      # (if writeFile_rejects e then [] else [Assign r ''photoPath'' (JStr np)])"
    using p(6) by (simp add: u ef)
  ultimately show ?thesis using p(1,2,3,4) by blast
qed

lemma example_put_photo:
  fixes e :: env
  assumes "e = example_env\<lparr>writeFile_rejects := w\<rparr>"
  shows "\<exists>res s'. put_photo e example_id (Unread ''JPG2'') example_server = Inr (Some res, s') \<and>
           status res = (if w then 500 else 200) \<and>
           inventoryDB s' = [(example_id, 12)] \<and>
           heap s' ! 12 =
             [(''id'', JStr example_id), (''name'', JStr ''Widget''), (''description'', JStr ''blue''),
              (''photoPath'', JStr (if w then ''cache/up1.jpg'' else example_photo))] \<and>
           disk s' = (if w then Map.empty else [example_photo \<mapsto> ''JPG2'']) \<and>
           effects s' = effects example_server
              @ FsUnlink (JStr ''cache/up1.jpg'') # FsWriteFile example_photo ''JPG2''
              # (if w then [] else [Assign 12 ''photoPath'' (JStr example_photo)])"
proof -
  have h: "map_of (heap example_server ! 12) ''photoPath'' = Some (JStr ''cache/up1.jpg'')"
    "''cache/up1.jpg'' \<noteq> []" "''JPG2'' \<noteq> []"
    by (simp_all add: example_lookup)
  have np: "path_join e (options_cache e)
      (''photo_'' @ example_id @ ''_'' @ show_nat (date_now e) @ ''.jpg'') = example_photo"
    by (simp add: assms example_env_def show_nat_5 example_id_def example_photo_def)
  have f: "writeFile_rejects e = w" "unlink_rejects e = False"
    by (simp_all add: assms example_env_def)
  from put_photo_replaces[OF wf_example_server example_lookup(1) h, of e]
  show ?thesis
    unfolding np f
    by (auto simp: example_server_fields nth_append example_lookup)
qed

lemma example_registered:
  "map_prod Some id (post_register example_env example_form (init Map.empty)) =
     (Some (fst (post_register example_env example_form (init Map.empty))), example_server)"
  by (cases "post_register example_env example_form (init Map.empty)")
     (simp add: example_server_def)

lemma example_replace_allowed:
  "fresh_paths (ReqRegister example_env example_form) (init Map.empty)"
  "fresh_paths (ReqPutPhoto e example_id req) example_server"
  "plain_request (ReqPutPhoto e example_id req) example_server"
proof -
  show "fresh_paths (ReqRegister example_env example_form) (init Map.empty)"
    by (simp add: example_form_def referenced_def init_def)
  show "fresh_paths (ReqPutPhoto e example_id req) example_server"
    by (simp add: referenced_by_other_def example_server_fields)
  show "plain_request (ReqPutPhoto e example_id req) example_server"
    by (simp add: inherited_names_def example_lookup object_prototype_keys_def example_id_def)
qed

lemma along_Cons:
  "P q s \<Longrightarrow> step q s = Inr (res, s1) \<Longrightarrow> along P qs s1 \<Longrightarrow> along P (q # qs) s"
  by simp

lemma along_single: "P q s \<Longrightarrow> along P [q] s"
  by (simp split: sum.splits prod.splits)


section \<open>What responses show\<close>

lemma itemToClient_hides:
  assumes "itemToClient item s = (Some c, s1)"
  shows "''photoPath'' \<notin> fst ` set (heap s1 ! c)"
proof -
  have "(''photoPath'', v) \<notin> set (AList.delete ''photoPath'' obj)" for obj :: jsobj and v
    by (simp add: AList.delete_eq)
  with assms show ?thesis
    by (auto simp: itemToClient_def alloc_def set_prop_def delete_prop_def is_function_def
        split: if_splits option.splits)
qed

lemma hides_error: "hides_path (error_body m)" "hides_path (message_body m)"
  by (simp_all add: hides_path_def error_body_def message_body_def)

lemma json_itemToClient_hides: "hides_path (body (fst (json_itemToClient code item s)))"
  using itemToClient_hides[of item s]
  by (cases "itemToClient item s")
     (auto simp: json_itemToClient_def res_json_def hides_path_def split: option.splits)

lemma json_itemToClient_hides_body:
  "json_itemToClient code item s = (res, s') \<Longrightarrow> hides_path (body res)"
  using json_itemToClient_hides[of code item s] by simp

lemma map_itemToClient_prefix:
  "take (length (heap s)) (heap (snd (map_itemToClient items s))) = heap s"
proof (induction items arbitrary: s)
  case Nil
  then show ?case by simp
next
  case (Cons item items)
  obtain c s1 where a: "itemToClient item s = (c, s1)" by (cases "itemToClient item s")
  have p1: "take (length (heap s)) (heap s1) = heap s"
    using itemToClient_prefix[of s item] a by simp
  have l1: "length (heap s) \<le> length (heap s1)"
    using itemToClient_length[of item s] a by simp
  obtain cs s2 where b: "map_itemToClient items s1 = (cs, s2)"
    by (cases "map_itemToClient items s1")
  have p2: "take (length (heap s1)) (heap s2) = heap s1"
    using Cons.IH[of s1] b by simp
  have "take (length (heap s)) (heap s2) = take (length (heap s)) (take (length (heap s1)) (heap s2))"
    using l1 by (simp add: min_def)
  then have "take (length (heap s)) (heap s2) = heap s" using p1 p2 by simp
  then show ?case using a b p1 by (auto split: option.splits)
qed

lemma map_itemToClient_hides:
  "map_itemToClient items s = (Some cs, s') \<Longrightarrow>
     \<forall>c \<in> set cs. ''photoPath'' \<notin> fst ` set (heap s' ! c)"
proof (induction items arbitrary: s cs s')
  case Nil
  then show ?case by simp
next
  case (Cons item items)
  from Cons.prems obtain c s1 cs2 where a: "itemToClient item s = (Some c, s1)"
    and b: "map_itemToClient items s1 = (Some cs2, s')" and e: "cs = c # cs2"
    by (auto split: prod.splits option.splits)
  have c: "c = length (heap s)" using itemToClient_ref[of item s c] a by simp
  have "length (heap s1) = Suc (length (heap s))"
    using itemToClient_length[of item s] a by simp
  then have lt: "c < length (heap s1)" using c by simp
  have "take (length (heap s1)) (heap s') = heap s1"
    using map_itemToClient_prefix[of s1 items] b by simp
  then have "heap s' ! c = heap s1 ! c" using lt by (metis nth_take)
  with itemToClient_hides[OF a] Cons.IH[OF b] e show ?case by simp
qed

lemma get_inventory_hides: "hides_path (body (fst (get_inventory s)))"
  using map_itemToClient_hides[of "map (\<lambda>(k, r). Ref r) (inventoryDB s)" s]
  by (cases "map_itemToClient (map (\<lambda>(k, r). Ref r) (inventoryDB s)) s")
     (auto simp: get_inventory_def res_json_def hides_path_def split: option.splits)

lemma search_item_hides: "hides_path (body (fst (search_item k flag s)))"
proof (cases "if falsy (db_get s (property_key k)) then None else db_get s (property_key k)")
  case None
  then show ?thesis by (simp add: search_item_def res_json_def hides_error)
next
  case (Some item)
  obtain c s1 where i: "itemToClient item s = (c, s1)" by (cases "itemToClient item s")
  show ?thesis
  proof (cases c)
    case None
    with Some i show ?thesis by (simp add: search_item_def res_json_def hides_path_def)
  next
    case c: (Some x)
    have x: "x = length (heap s)" using itemToClient_ref[of item s x] i c by simp
    have "length (heap s1) = Suc (length (heap s))"
      using itemToClient_length[of item s] i by simp
    then have lt: "x < length (heap s1)" using x by simp
    have h: "''photoPath'' \<notin> fst ` set (heap s1 ! x)"
      using itemToClient_hides[of item s x s1] i c by simp
    have u: "''photoPath'' \<notin> fst ` set (AList.update ''description'' v (heap s1 ! x))" for v
      using h by (auto simp: AList.update_keys simp flip: set_map)
    from Some i c lt h u show ?thesis
      by (auto simp: search_item_def res_json_def hides_path_def set_prop_def is_function_def
          Let_def split: option.splits)
  qed
qed

lemma response_hides_path:
  assumes "step q s = Inr (Some res, s')"
  shows "hides_path (body res)"
proof (cases q)
  case (ReqRegister e f)
  then have r: "res = fst (post_register e f s)" using assms by (auto dest: answer_eq)
  show ?thesis
    unfolding r using json_itemToClient_hides
    by (auto simp: post_register_def register_callback_def res_json_def hides_error alloc_def
        Let_def split: form.splits option.splits)
next
  case ReqList
  then have "res = fst (get_inventory s)" using assms by (auto dest: answer_eq)
  then show ?thesis by (simp add: get_inventory_hides)
next
  case (ReqUpdate k b)
  with assms have "\<exists>x. put_inventory k b s = Inr x \<and> res = fst x"
    by (cases "put_inventory k b s") (auto dest: answer_eq)
  then show ?thesis
    by (auto simp: put_inventory_def res_json_def hides_error Let_def
        dest: json_itemToClient_hides_body split: option.splits jsitem.splits if_splits)
next
  case (ReqDelete e k)
  then have "res = fst (delete_inventory e k s)" using assms by (auto dest: answer_eq)
  then show ?thesis
    by (auto simp: delete_inventory_def res_json_def hides_error Let_def split: option.splits)
next
  case (ReqPutPhoto e k req)
  then have "body res = error_body ''Not Found'' \<or> body res = error_body ''Empty photo data''
      \<or> body res = message_body ''Photo updated'' \<or> body res = error_body ''Failed to save photo''"
    using assms
    by (auto simp: put_photo_def Let_def case_prod_beta res_json_def
        split: option.splits if_splits jsitem.splits request_stream.splits)
  then show ?thesis by (auto simp: hides_error)
next
  case (ReqSearchGet k f)
  then have "res = fst (search_item k f s)" using assms by (auto simp: get_search_def dest: answer_eq)
  then show ?thesis by (simp add: search_item_hides)
next
  case (ReqSearchPost k f)
  then have "res = fst (search_item k f s)" using assms by (auto simp: post_search_def dest: answer_eq)
  then show ?thesis by (simp add: search_item_hides)
qed

section \<open>The claims\<close>




text \<open>
  C2, as the code has it: start the server and send it any requests such that (a) none
  updates, deletes or replaces the photo under an id that is a property name
  \<^verbatim>\<open>inventoryDB\<close> inherits from \<^verbatim>\<open>Object.prototype\<close>, (b) the file of an uploaded photo
  and the new file of a photo replace get a path that no other live record refers to, and
  (c) no photo replace has its write rejected after it has unlinked the existing photo of
  a live record. Then every request is handled, and afterwards every live record whose
  photo reference is present refers to a file that is on disk.
\<close>

theorem no_dangling_run:
  assumes "along (\<lambda>q s. fresh_paths q s \<and> plain_request q s \<and> \<not> replace_fails q s) qs (init d)"
  shows "\<exists>s. run qs (init d) = Inr s \<and> no_dangling s"
  using consistent_run[OF consistent_init assms] by (auto simp: consistent_def)

theorem no_dangling_run_witness:
  "along (\<lambda>q s. fresh_paths q s \<and> plain_request q s \<and> \<not> replace_fails q s)
     example_replace (init Map.empty) \<and>
   (\<exists>s. run example_replace (init Map.empty) = Inr s \<and> no_dangling s)"
proof -
  have w: "\<not> replace_fails (ReqPutPhoto example_env example_id (Unread ''JPG2'')) example_server"
    by (simp add: example_env_def)
  have a: "along (\<lambda>q s. fresh_paths q s \<and> plain_request q s \<and> \<not> replace_fails q s)
      example_replace (init Map.empty)"
    unfolding example_replace_def
  proof (rule along_Cons[OF _ step_example_register])
    show "fresh_paths (ReqRegister example_env example_form) (init Map.empty) \<and>
        plain_request (ReqRegister example_env example_form) (init Map.empty) \<and>
        \<not> replace_fails (ReqRegister example_env example_form) (init Map.empty)"
      using example_replace_allowed(1) by simp
    show "along (\<lambda>q s. fresh_paths q s \<and> plain_request q s \<and> \<not> replace_fails q s)
        [ReqPutPhoto example_env example_id (Unread ''JPG2'')] example_server"
      by (rule along_single) (intro conjI example_replace_allowed w)
  qed
  from no_dangling_run[OF a] a show ?thesis by simp
qed

text \<open>
  C2, as stated (in every reachable state), fails: register an item with a photo, then
  replace the photo while the file system rejects the write. The handler has unlinked the
  old file by then and its \<^verbatim>\<open>catch\<close> only answers 500, so the record, which is still
  live, refers to a file that is no longer on disk.
\<close>

theorem failed_write_leaves_dangling:
  "\<exists>s. run example_failed_replace (init Map.empty) = Inr s \<and>
       map_of (inventoryDB s) example_id = Some 12 \<and>
       photo_ref s 12 = Some ''cache/up1.jpg'' \<and>
       disk s ''cache/up1.jpg'' = None \<and>
       \<not> no_dangling s"
proof -
  from example_put_photo[of "example_env\<lparr>writeFile_rejects := True\<rparr>" True]
  obtain res s where p:
    "put_photo (example_env\<lparr>writeFile_rejects := True\<rparr>) example_id (Unread ''JPG2'')
       example_server = Inr (Some res, s)"
    "inventoryDB s = [(example_id, 12)]"
    "heap s ! 12 =
       [(''id'', JStr example_id), (''name'', JStr ''Widget''), (''description'', JStr ''blue''),
        (''photoPath'', JStr ''cache/up1.jpg'')]"
    "disk s = Map.empty"
    by auto
  have r: "run example_failed_replace (init Map.empty) = Inr s"
    by (simp add: example_failed_replace_def example_registered p(1))
  have f: "photo_ref s 12 = Some ''cache/up1.jpg''"
    by (simp add: photo_ref_def p(3))
  have "\<not> no_dangling s"
    by (simp add: no_dangling_def p(2,4) f)
  with r f p(2,4) show ?thesis by simp
qed







text \<open>
  C5, on an id without a record: \<^verbatim>\<open>DELETE /inventory/constructor\<close> on a server that holds
  no record is answered with status 200 and the message \<^verbatim>\<open>Item constructor deleted\<close>, not
  with 404. The lookup \<^verbatim>\<open>inventoryDB[id]\<close> finds the function that every object inherits
  under that name, so the test \<^verbatim>\<open>!item\<close> does not fire.
\<close>

theorem delete_inherited_key_answers_200:
  "delete_inventory e ''constructor'' (init d) =
     (\<lparr>status = 200, body = JObject [(''message'', JStr ''Item constructor deleted'')]\<rparr>,
      \<lparr>heap = replicate 12 [], inventoryDB = [], disk = d, effects = [DbDelete ''constructor'']\<rparr>)"
  by (simp add: delete_inventory_def db_get_def falsy_def init_def object_prototype_keys_def
      unlink_photo_def item_prop_def own_props_def db_delete_def res_json_def message_body_def
      Let_def)



text \<open>
  C7, on an id that no registration returned: on a server that holds no record,
  \<^verbatim>\<open>PUT /inventory/constructor\<close> with an empty body is answered with 200 and stores the
  function that every object inherits under that name as a record. \<^verbatim>\<open>GET /inventory\<close>
  then lists one entry, although no registration has returned any id.
\<close>

theorem update_inherited_key_is_listed:
  "\<exists>s. run [ReqUpdate ''constructor'' []] (init d) = Inr s \<and>
       inventoryDB s = [(''constructor'', 1)] \<and>
       listed_ids s = [None] \<and>
       created_ids [ReqUpdate ''constructor'' []] (init d) = []"
proof -
  have g: "db_get (init d) ''constructor'' = Some (Ref 1)"
    by (simp add: db_get_def init_def object_prototype_keys_def)
  have v: "view_of [] [] = []" "\<not> view_throws [] []"
    by (simp_all add: view_of_def view_throws_def inherited_def)
  define s3 where "s3 = db_store ''constructor'' 1 (init d)"
  have h3: "heap s3 = replicate 12 []" "inventoryDB s3 = [(''constructor'', 1)]"
    by (simp_all add: s3_def db_store_def init_def)
  have p3: "0 < length (heap s3)" "\<not> view_throws (heap s3 ! 0) (own_props s3 (Ref 1))"
    by (simp_all add: h3 own_props_def v)
  obtain res s where j: "json_itemToClient 200 (Ref 1) s3 = (res, s)"
    by (cases "json_itemToClient 200 (Ref 1) s3")
  from json_itemToClient_eq[OF p3, of 200] j
  have f: "status res = 200" "heap s = replicate 12 [] @ [[]]"
    "inventoryDB s = [(''constructor'', 1)]"
    by (simp_all add: h3 own_props_def v)
  have bp: "body_prop (init d) [] f = None" for f
    by (simp add: body_prop_def init_def)
  have p: "put_inventory ''constructor'' [] (init d) = Inr (res, s)"
    unfolding put_inventory_def g using j by (simp add: bp s3_def)
  have r: "run [ReqUpdate ''constructor'' []] (init d) = Inr s"
    by (simp add: p)
  have c: "created_ids [ReqUpdate ''constructor'' []] (init d) = []"
    by (simp add: p created_id_def f(1))
  have ps: "0 < length (heap s)"
    "\<forall>(k, r) \<in> set (inventoryDB s). r < length (heap s) \<and> \<not> view_throws (heap s ! 0) (heap s ! r)"
    by (simp_all add: f nth_append v)
  have "listed_ids s = [None]"
    by (simp add: listed_ids_def get_inventory_views(1)[OF ps] body_id_def f nth_append v)
  with r c f(3) show ?thesis by simp
qed

text \<open>
  C8: for every record, the object \<^verbatim>\<open>itemToClient\<close> returns has the \<^verbatim>\<open>id\<close>, the
  \<^verbatim>\<open>name\<close> and the \<^verbatim>\<open>description\<close> of the record; it has a \<^verbatim>\<open>photoUrl\<close>, equal to
  \<^verbatim>\<open>/inventory/{id}/photo\<close>, exactly when the record has a photo reference (the test of
  the code: \<^verbatim>\<open>photoPath\<close> is truthy); and it has no property \<^verbatim>\<open>photoPath\<close>.
\<close>

theorem itemToClient_view:
  assumes "r < length (heap s)" and "is_record k (heap s ! r)"
  shows "\<exists>v. client_view s (Ref r) = Some v \<and>
           map_of v ''id'' = Some (JStr k) \<and>
           map_of v ''name'' = map_of (heap s ! r) ''name'' \<and>
           map_of v ''description'' = map_of (heap s ! r) ''description'' \<and>
           map_of v ''photoUrl'' =
             (if truthy (map_of (heap s ! r) ''photoPath'')
              then Some (JStr (''/inventory/'' @ k @ ''/photo'')) else None) \<and>
           ''photoPath'' \<notin> fst ` set v"
proof -
  have p: "0 < length (heap s)" using assms(1) by auto
  have nt: "\<not> view_throws (heap s ! 0) (own_props s (Ref r))"
    using record_returns[OF assms(2)] by (simp add: own_props_def)
  have "client_view s (Ref r) = Some (view_of (heap s ! 0) (heap s ! r))"
    using client_view_eq[OF p nt] by (simp add: own_props_def)
  then show ?thesis
    by (simp add: record_view[OF assms(2)] view_of_other view_of_keys)
qed

theorem itemToClient_view_witness:
  "12 < length (heap example_server) \<and> is_record example_id (heap example_server ! 12) \<and>
   (\<exists>v. client_view example_server (Ref 12) = Some v \<and>
        map_of v ''id'' = Some (JStr example_id) \<and>
        map_of v ''photoUrl'' = Some (JStr (''/inventory/'' @ example_id @ ''/photo'')) \<and>
        ''photoPath'' \<notin> fst ` set v)"
proof -
  have h1: "12 < length (heap example_server)" by (simp add: example_server_fields)
  have h2: "is_record example_id (heap example_server ! 12)"
    by (simp add: example_lookup is_record_def)
  have t: "truthy (map_of (heap example_server ! 12) ''photoPath'')"
    by (simp add: example_lookup)
  from itemToClient_view[OF h1 h2] t h1 h2 show ?thesis by auto
qed



text \<open>
  C10: \<^verbatim>\<open>GET /search\<close> and \<^verbatim>\<open>POST /search\<close> change no stored state, whatever the id and
  the flag: every object that was in the heap, so every stored record with its description,
  is as before (the answer is built on an object allocated behind them), and the inventory
  and the files on disk are as before.
\<close>

theorem search_keeps_store:
  "take (length (heap s)) (heap (snd (get_search id' includePhoto s))) = heap s \<and>
   inventoryDB (snd (get_search id' includePhoto s)) = inventoryDB s \<and>
   disk (snd (get_search id' includePhoto s)) = disk s \<and>
   take (length (heap s)) (heap (snd (post_search id' has_photo s))) = heap s \<and>
   inventoryDB (snd (post_search id' has_photo s)) = inventoryDB s \<and>
   disk (snd (post_search id' has_photo s)) = disk s"
  by (simp add: get_search_def post_search_def search_item_prefix)

end
